theory Spec2Isabelle
  imports Main
begin

unbundle bit_operations_syntax

section \<open>JavaScript values used by the codec\<close>

text \<open>
  The codec of \<^verbatim>\<open>src/index.ts\<close> is a class of static methods over three static fields.
  It computes with JavaScript numbers, BigInts, strings and Dates, so the built-ins it calls
  are modelled first, each after its definition in the ECMAScript standard.

  \<^item> A BigInt is an \<^typ>\<open>int\<close>: \<^verbatim>\<open><<\<close> is \<^const>\<open>push_bit\<close>, \<^verbatim>\<open>>>\<close> is
    \<^const>\<open>drop_bit\<close> (it rounds towards minus infinity, as the BigInt shift does) and
    \<^verbatim>\<open>|\<close> is \<open>OR\<close> on the infinite two's complement representation.
  \<^item> A number is a \<open>number\<close>: \<open>NaN\<close>, the two infinities, or an integer-valued
    double \<open>Num n\<close>. Numbers with a fractional part are outside the model, and \<open>-0\<close> is
    identified with \<open>0\<close>. Where JavaScript rounds an integer to the nearest double
    (\<^verbatim>\<open>Number(bigint)\<close>, \<^verbatim>\<open>parseInt\<close>, \<^verbatim>\<open>+\<close>), the model rounds with \<open>round_to_double\<close>.
  \<^item> A string is a \<^typ>\<open>string\<close>; a character stands for the code unit of the same value.
  \<^item> A thrown exception is the left injection of a sum.
\<close>

datatype error = RangeError | SyntaxError

datatype number = NaN | Num int | PosInfinity | NegInfinity

subsection \<open>Digits\<close>

definition digit_char :: "nat \<Rightarrow> char" where
  "digit_char d = (if d < 10 then char_of (48 + d) else char_of (87 + d))"

definition digit_value :: "char \<Rightarrow> nat option" where
  "digit_value c =
     (let k = of_char c :: nat in
      if 48 \<le> k \<and> k \<le> 57 then Some (k - 48)
      else if 97 \<le> k \<and> k \<le> 122 then Some (k - 87)
      else if 65 \<le> k \<and> k \<le> 90 then Some (k - 55)
      else None)"

definition is_digit :: "nat \<Rightarrow> char \<Rightarrow> bool" where
  "is_digit radix c = (case digit_value c of None \<Rightarrow> False | Some d \<Rightarrow> d < radix)"

definition digits_value :: "nat \<Rightarrow> string \<Rightarrow> nat" where
  "digits_value radix s =
     foldl (\<lambda>acc c. acc * radix + (case digit_value c of None \<Rightarrow> 0 | Some d \<Rightarrow> d)) 0 s"

text \<open>The digits of a natural number in a radix from 2 to 36, most significant first.\<close>

function digits :: "nat \<Rightarrow> nat \<Rightarrow> string" where
  "digits radix n =
     (if radix < 2 \<or> n < radix then [digit_char n]
      else digits radix (n div radix) @ [digit_char (n mod radix)])"
  by pat_completeness auto
termination
  by (relation "measure snd") auto

declare digits.simps [simp del]

text \<open>\<^verbatim>\<open>BigInt.prototype.toString(radix)\<close>: a minus sign for a negative value, then the digits.\<close>

definition BigInt_toString :: "int \<Rightarrow> nat \<Rightarrow> string" where
  "BigInt_toString n radix =
     (if n < 0 then CHR ''-'' # digits radix (nat (- n)) else digits radix (nat n))"

subsection \<open>Numbers\<close>

text \<open>
  The double nearest to an integer, ties to the even significand: integers below \<open>2 ^ 53\<close>
  in magnitude are doubles; a larger one keeps its leading 53 bits, and a magnitude that
  rounds to \<open>2 ^ 1024\<close> becomes an infinity.
\<close>

definition round_to_double :: "int \<Rightarrow> number" where
  "round_to_double n =
     (let a = nat \<bar>n\<bar> in
      if a < 2 ^ 53 then Num n
      else
        let e = length (digits 2 a) - 53;
            q = a div 2 ^ e;
            r = a mod 2 ^ e;
            h = 2 ^ (e - 1);
            m = (if h < r \<or> (r = h \<and> odd q) then q + 1 else q);
            v = int (m * 2 ^ e)
        in if 2 ^ 1024 \<le> v then (if n < 0 then NegInfinity else PosInfinity)
           else Num (if n < 0 then - v else v))"

text \<open>\<^verbatim>\<open>Number(bigint)\<close>.\<close>

definition Number_of_BigInt :: "int \<Rightarrow> number" where
  "Number_of_BigInt n = round_to_double n"

text \<open>\<^verbatim>\<open>BigInt(number)\<close> throws a RangeError unless the number is an integer.\<close>

definition BigInt_of_number :: "number \<Rightarrow> error + int" where
  "BigInt_of_number x = (case x of Num n \<Rightarrow> Inr n | _ \<Rightarrow> Inl RangeError)"

text \<open>Addition of numbers.\<close>

fun number_add :: "number \<Rightarrow> number \<Rightarrow> number" where
  "number_add (Num a) (Num b) = round_to_double (a + b)"
| "number_add NaN _ = NaN"
| "number_add _ NaN = NaN"
| "number_add PosInfinity NegInfinity = NaN"
| "number_add NegInfinity PosInfinity = NaN"
| "number_add PosInfinity _ = PosInfinity"
| "number_add _ PosInfinity = PosInfinity"
| "number_add NegInfinity _ = NegInfinity"
| "number_add _ NegInfinity = NegInfinity"

text \<open>
  \<^verbatim>\<open>x % d\<close> for a finite divisor \<open>d\<close>: the remainder takes the sign of the dividend
  (it truncates, where \<open>mod\<close> of HOL floors), and is \<open>NaN\<close> for a dividend that is not
  finite.
\<close>

definition number_rem :: "number \<Rightarrow> int \<Rightarrow> number" where
  "number_rem x d =
     (case x of
        Num a \<Rightarrow> if d = 0 then NaN else Num (sgn a * (\<bar>a\<bar> mod \<bar>d\<bar>))
      | _ \<Rightarrow> NaN)"

text \<open>A number used as a condition: \<open>NaN\<close> and \<open>0\<close> are falsy.\<close>

definition truthy :: "number \<Rightarrow> bool" where
  "truthy x = (case x of NaN \<Rightarrow> False | Num n \<Rightarrow> n \<noteq> 0 | _ \<Rightarrow> True)"

subsection \<open>Dates\<close>

text \<open>
  A time argument of the codec has the type \<^verbatim>\<open>Date | number\<close>. A Date object is given by
  its time value, which is \<open>NaN\<close> for an invalid date.
\<close>

datatype time_arg = Date number | Millis number

text \<open>The time value of a Date is \<open>NaN\<close> or an integer of at most 8.64e15 in magnitude.\<close>

definition TimeClip :: "number \<Rightarrow> number" where
  "TimeClip t =
     (case t of
        Num n \<Rightarrow> if 8640000000000000 < \<bar>n\<bar> then NaN else Num n
      | _ \<Rightarrow> NaN)"

text \<open>
  \<^verbatim>\<open>new Date(x).valueOf()\<close>, and \<^verbatim>\<open>x.valueOf()\<close> when \<open>x\<close> is a Date: the constructor clips
  a number, and copies the time value of a Date, which was clipped when that Date was made.
\<close>

definition Date_valueOf :: "time_arg \<Rightarrow> number" where
  "Date_valueOf x = (case x of Date tv \<Rightarrow> TimeClip tv | Millis n \<Rightarrow> TimeClip n)"

subsection \<open>Strings\<close>

text \<open>White space and line terminators among the code units below 256.\<close>

definition is_white_space :: "char \<Rightarrow> bool" where
  "is_white_space c = (of_char c \<in> {9, 10, 11, 12, 13, 32, 160 :: nat})"

definition trim :: "string \<Rightarrow> string" where
  "trim s = rev (dropWhile is_white_space (rev (dropWhile is_white_space s)))"

text \<open>
  \<^verbatim>\<open>String.prototype.substring(start, end)\<close>: both indices are clamped to the string, and
  swapped when the first is the larger.
\<close>

definition clamp_index :: "number \<Rightarrow> nat \<Rightarrow> nat" where
  "clamp_index i len =
     (case i of
        NaN \<Rightarrow> 0
      | Num k \<Rightarrow> if k < 0 then 0 else min (nat k) len
      | PosInfinity \<Rightarrow> len
      | NegInfinity \<Rightarrow> 0)"

definition substring :: "string \<Rightarrow> number \<Rightarrow> number option \<Rightarrow> string" where
  "substring s start end_opt =
     (let len = length s;
          finalStart = clamp_index start len;
          finalEnd = (case end_opt of None \<Rightarrow> len | Some e \<Rightarrow> clamp_index e len);
          lo = min finalStart finalEnd;
          hi = max finalStart finalEnd
      in take (hi - lo) (drop lo s))"

text \<open>
  \<^verbatim>\<open>BigInt(string)\<close>: the string is trimmed; the empty string is 0; a decimal literal may
  have a sign; a literal with the prefix 0x, 0o or 0b has none. Anything else is a
  SyntaxError.
\<close>

definition unsigned_digits :: "nat \<Rightarrow> string \<Rightarrow> int option" where
  "unsigned_digits radix s =
     (if s \<noteq> [] \<and> list_all (is_digit radix) s then Some (int (digits_value radix s))
      else None)"

definition nondecimal_radix :: "char \<Rightarrow> nat option" where
  "nondecimal_radix c =
     (if c = CHR ''x'' \<or> c = CHR ''X'' then Some 16
      else if c = CHR ''o'' \<or> c = CHR ''O'' then Some 8
      else if c = CHR ''b'' \<or> c = CHR ''B'' then Some 2
      else None)"

definition StringToBigInt :: "string \<Rightarrow> int option" where
  "StringToBigInt str =
     (case trim str of
        [] \<Rightarrow> Some 0
      | c # cs \<Rightarrow>
          (case (if c = CHR ''0'' then (case cs of [] \<Rightarrow> None | p # _ \<Rightarrow> nondecimal_radix p)
                 else None) of
             Some radix \<Rightarrow> unsigned_digits radix (tl cs)
           | None \<Rightarrow>
               if c = CHR ''-'' then map_option uminus (unsigned_digits 10 cs)
               else if c = CHR ''+'' then unsigned_digits 10 cs
               else unsigned_digits 10 (c # cs)))"

definition BigInt_of_string :: "string \<Rightarrow> error + int" where
  "BigInt_of_string str =
     (case StringToBigInt str of None \<Rightarrow> Inl SyntaxError | Some n \<Rightarrow> Inr n)"

text \<open>
  \<^verbatim>\<open>parseInt(string, radix)\<close>: leading white space and a sign are skipped, the longest
  prefix of digits of the radix is read, and the result is \<open>NaN\<close> when that prefix is empty.
  The value is exact before it is rounded to a double in radix 2, the only radix the codec
  uses.
\<close>

definition parseInt :: "string \<Rightarrow> nat \<Rightarrow> number" where
  "parseInt string radix =
     (let S = dropWhile is_white_space string;
          sign = (case S of [] \<Rightarrow> 1 | c # _ \<Rightarrow> if c = CHR ''-'' then - 1 else (1 :: int));
          S1 = (case S of [] \<Rightarrow> S | c # cs \<Rightarrow> if c = CHR ''+'' \<or> c = CHR ''-'' then cs else S)
      in if radix \<noteq> 0 \<and> (radix < 2 \<or> 36 < radix) then NaN
         else
           let hex = ((radix = 0 \<or> radix = 16) \<and> (take 2 S1 = ''0x'' \<or> take 2 S1 = ''0X''));
               R = (if hex then 16 else if radix = 0 then 10 else radix);
               S2 = (if hex then drop 2 S1 else S1);
               Z = takeWhile (is_digit R) S2
           in if Z = [] then NaN else round_to_double (sign * int (digits_value R Z)))"

section \<open>The codec\<close>

text \<open>
  The static fields \<^verbatim>\<open>EPOCH\<close>, \<^verbatim>\<open>SHARD_ID\<close> and \<^verbatim>\<open>SEQUENCE\<close> are the state of the process.
  \<^verbatim>\<open>Date.UTC(1970, 0, 1).valueOf()\<close> is 0.
\<close>

record state =
  EPOCH :: number
  SHARD_ID :: number
  SEQUENCE :: number

definition initial_state :: state where
  "initial_state = \<lparr>EPOCH = Num 0, SHARD_ID = Num 1, SEQUENCE = Num 1\<rparr>"

record DeconstructedSnowflake =
  timestamp :: number
  shard_id :: number
  sequence :: number
  binary_string :: string

text \<open>
  \<^verbatim>\<open>generate\<close> takes the reading of the clock (\<^verbatim>\<open>Date.now()\<close>) and its three optional
  arguments, and returns the identifier or the exception thrown, with the state it leaves.
  The counter is read and incremented by \<^verbatim>\<open>SEQUENCE++\<close> on line 66, after the conversions
  of lines 64 and 65, which can throw.
\<close>

definition generate ::
  "state \<Rightarrow> number \<Rightarrow> time_arg option \<Rightarrow> number option \<Rightarrow> time_arg option
     \<Rightarrow> (error + string) \<times> state" where
  "generate st now timestamp_arg shard_id_arg epoch_arg =
     (let timestamp0 = (case timestamp_arg of None \<Rightarrow> Millis now | Some t \<Rightarrow> t);
          shard = (case shard_id_arg of None \<Rightarrow> SHARD_ID st | Some s \<Rightarrow> s);
          epoch0 = (case epoch_arg of None \<Rightarrow> Millis (EPOCH st) | Some e \<Rightarrow> e);
          timestamp1 = Date_valueOf timestamp0;
          epoch1 = Date_valueOf epoch0
      in case BigInt_of_number timestamp1 of
           Inl err \<Rightarrow> (Inl err, st)
         | Inr t \<Rightarrow>
        (case BigInt_of_number epoch1 of
           Inl err \<Rightarrow> (Inl err, st)
         | Inr e \<Rightarrow>
        (case BigInt_of_number (number_rem shard 1024) of
           Inl err \<Rightarrow> (Inl err, st)
         | Inr sh \<Rightarrow>
        (let result1 = push_bit 22 (t - e);
             result2 = result1 OR push_bit 12 sh;
             old = SEQUENCE st;
             st' = st\<lparr>SEQUENCE := number_add old (Num 1)\<rparr>
         in case BigInt_of_number (number_rem old 4096) of
              Inl err \<Rightarrow> (Inl err, st')
            | Inr sq \<Rightarrow> (Inr (BigInt_toString (result2 OR sq) 10), st')))))"

definition cached64BitZeros :: string where
  "cached64BitZeros = ''0000000000000000000000000000000000000000000000000000000000000000''"

definition binary :: "string \<Rightarrow> error + string" where
  "binary snowflake =
     (case BigInt_of_string snowflake of
        Inl err \<Rightarrow> Inl err
      | Inr n \<Rightarrow>
          (let binValue = BigInt_toString n 2
           in Inr (if length binValue < 64
                   then substring cached64BitZeros (Num 0)
                          (Some (Num (64 - int (length binValue)))) @ binValue
                   else binValue)))"

definition extractBits :: "string \<Rightarrow> number \<Rightarrow> number option \<Rightarrow> error + number" where
  "extractBits snowflake start len =
     (if (case len of None \<Rightarrow> False | Some l \<Rightarrow> truthy l)
      then (case binary snowflake of
              Inl err \<Rightarrow> Inl err
            | Inr b \<Rightarrow>
                Inr (parseInt
                       (substring b start
                          (Some (number_add start (case len of None \<Rightarrow> NaN | Some l \<Rightarrow> l))))
                       2))
      else (case binary snowflake of
              Inl err \<Rightarrow> Inl err
            | Inr b \<Rightarrow> Inr (parseInt (substring b start None) 2)))"

definition parse :: "state \<Rightarrow> string \<Rightarrow> time_arg option \<Rightarrow> error + DeconstructedSnowflake" where
  "parse st snowflake epoch =
     (case binary snowflake of
        Inl err \<Rightarrow> Inl err
      | Inr bin \<Rightarrow>
     (case BigInt_of_string snowflake of
        Inl err \<Rightarrow> Inl err
      | Inr n \<Rightarrow>
     (case BigInt_of_number
             (Date_valueOf (case epoch of None \<Rightarrow> Millis (EPOCH st) | Some e \<Rightarrow> e)) of
        Inl err \<Rightarrow> Inl err
      | Inr e \<Rightarrow>
     (case extractBits snowflake (Num 42) (Some (Num 10)) of
        Inl err \<Rightarrow> Inl err
      | Inr sh \<Rightarrow>
     (case extractBits snowflake (Num 52) None of
        Inl err \<Rightarrow> Inl err
      | Inr sq \<Rightarrow>
          Inr \<lparr>timestamp = Number_of_BigInt (drop_bit 22 n + e),
               shard_id = sh, sequence = sq, binary_string = bin\<rparr>)))))"

text \<open>The regular expression \<^verbatim>\<open>/^[\d]{17,22}$/\<close>: from 17 to 22 characters, each of 0 to 9.\<close>

definition is_decimal_digit :: "char \<Rightarrow> bool" where
  "is_decimal_digit c = (48 \<le> (of_char c :: nat) \<and> (of_char c :: nat) \<le> 57)"

definition regex_test :: "string \<Rightarrow> bool" where
  "regex_test s = (17 \<le> length s \<and> length s \<le> 22 \<and> list_all is_decimal_digit s)"

text \<open>\<^verbatim>\<open>isValid\<close> catches whatever \<^verbatim>\<open>parse\<close> throws.\<close>

definition isValid :: "state \<Rightarrow> string \<Rightarrow> error + bool" where
  "isValid st snowflake =
     (if \<not> regex_test snowflake then Inr False
      else (case parse st snowflake None of
              Inr _ \<Rightarrow> Inr True
            | Inl _ \<Rightarrow> Inr False))"

text \<open>Calling \<^verbatim>\<open>generate\<close> again and again with the same arguments, the results in order.\<close>

fun generate_calls ::
  "nat \<Rightarrow> state \<Rightarrow> number \<Rightarrow> time_arg option \<Rightarrow> number option \<Rightarrow> time_arg option
     \<Rightarrow> (error + string) list \<times> state" where
  "generate_calls 0 st now t s e = ([], st)"
| "generate_calls (Suc k) st now t s e =
     (case generate st now t s e of
        (r, st1) \<Rightarrow> (case generate_calls k st1 now t s e of (rs, st2) \<Rightarrow> (r # rs, st2)))"

text \<open>
  The sequence field that \<^verbatim>\<open>parse\<close> reads back from the result of a call of
  \<^verbatim>\<open>generate\<close>, when neither throws.
\<close>

definition parsed_sequence :: "state \<Rightarrow> time_arg option \<Rightarrow> error + string \<Rightarrow> number option" where
  "parsed_sequence st epoch r =
     (case r of
        Inl _ \<Rightarrow> None
      | Inr snowflake \<Rightarrow>
          (case parse st snowflake epoch of Inl _ \<Rightarrow> None | Inr d \<Rightarrow> Some (sequence d)))"

text \<open>
  The specification of the bit extractor speaks of the integer value of a string of binary
  digits interpreted in base 2. This is that value, by position: the character at distance
  \<open>k\<close> from the end of the string counts \<open>2 ^ k\<close> when it is a 1.
\<close>

fun spec_base2_value :: "string \<Rightarrow> nat" where
  "spec_base2_value [] = 0"
| "spec_base2_value (c # cs) = (if c = CHR ''1'' then 2 ^ length cs else 0) + spec_base2_value cs"

section \<open>Digits and their values\<close>

lemma digit_value_digit_char: "d < 36 \<Longrightarrow> digit_value (digit_char d) = Some d"
  by (simp add: digit_value_def digit_char_def Let_def)

lemma is_digit_digit_char: "d < radix \<Longrightarrow> radix \<le> 36 \<Longrightarrow> is_digit radix (digit_char d)"
  by (simp add: is_digit_def digit_value_digit_char)

lemma digits_value_Nil: "digits_value radix [] = 0"
  by (simp add: digits_value_def)

lemma digits_value_snoc:
  "digits_value radix (xs @ [c]) =
     digits_value radix xs * radix + (case digit_value c of None \<Rightarrow> 0 | Some d \<Rightarrow> d)"
  by (simp add: digits_value_def)

lemma digits_value_append:
  "digits_value radix (xs @ ys) =
     digits_value radix xs * radix ^ length ys + digits_value radix ys"
proof (induction ys rule: rev_induct)
  case Nil
  then show ?case by (simp add: digits_value_Nil)
next
  case (snoc y ys)
  have "digits_value radix (xs @ ys @ [y]) = digits_value radix ((xs @ ys) @ [y])"
    by simp
  also have "\<dots> = digits_value radix (xs @ ys) * radix
      + (case digit_value y of None \<Rightarrow> 0 | Some d \<Rightarrow> d)"
    by (rule digits_value_snoc)
  finally show ?case
    by (simp add: snoc.IH digits_value_snoc algebra_simps)
qed

lemma digits_value_single: "d < 36 \<Longrightarrow> digits_value radix [digit_char d] = d"
  by (simp add: digits_value_def digit_value_digit_char)

lemma digits_value_digits:
  "2 \<le> radix \<Longrightarrow> radix \<le> 36 \<Longrightarrow> digits_value radix (digits radix n) = n"
proof (induction radix n rule: digits.induct)
  case (1 radix n)
  show ?case
  proof (cases "n < radix")
    case True
    with "1.prems" show ?thesis
      by (simp add: digits.simps [of radix n] digits_value_single)
  next
    case False
    with "1.prems" have "digits_value radix (digits radix (n div radix)) = n div radix"
      by (intro "1.IH") auto
    moreover have "n mod radix < 36"
      using "1.prems" mod_less_divisor [of radix n] by linarith
    ultimately show ?thesis
      using False "1.prems"
      by (simp add: digits.simps [of radix n] digits_value_append digits_value_single)
  qed
qed

lemma digits_all_digits:
  "2 \<le> radix \<Longrightarrow> radix \<le> 36 \<Longrightarrow> list_all (is_digit radix) (digits radix n)"
proof (induction radix n rule: digits.induct)
  case (1 radix n)
  show ?case
  proof (cases "n < radix")
    case True
    with "1.prems" show ?thesis
      by (simp add: digits.simps [of radix n] is_digit_digit_char)
  next
    case False
    with "1.prems" have "list_all (is_digit radix) (digits radix (n div radix))"
      by (intro "1.IH") auto
    then show ?thesis
      using False "1.prems"
      by (simp add: digits.simps [of radix n] is_digit_digit_char)
  qed
qed

lemma digits_not_Nil: "digits radix n \<noteq> []"
  by (subst digits.simps) simp

lemma length_digits_le:
  "2 \<le> radix \<Longrightarrow> n < radix ^ k \<Longrightarrow> 0 < k \<Longrightarrow> length (digits radix n) \<le> k"
proof (induction radix n arbitrary: k rule: digits.induct)
  case (1 radix n)
  show ?case
  proof (cases "n < radix")
    case True
    with "1.prems" show ?thesis
      by (simp add: digits.simps [of radix n])
  next
    case False
    obtain j where k: "k = Suc j"
      using "1.prems"(3) by (cases k) auto
    have "0 < j"
      using False "1.prems"(2) k by (cases j) auto
    moreover have "n div radix < radix ^ j"
      using "1.prems"(1,2) k by (simp add: less_mult_imp_div_less mult.commute)
    ultimately have "length (digits radix (n div radix)) \<le> j"
      using False "1.prems"(1) by (intro "1.IH") auto
    then show ?thesis
      using False "1.prems"(1) k by (simp add: digits.simps [of radix n])
  qed
qed

lemma length_digits_gt:
  "2 \<le> radix \<Longrightarrow> radix ^ k \<le> n \<Longrightarrow> k < length (digits radix n)"
proof (induction radix n arbitrary: k rule: digits.induct)
  case (1 radix n)
  show ?case
  proof (cases k)
    case 0
    then show ?thesis
      using digits_not_Nil [of radix n] by (cases "digits radix n") auto
  next
    case (Suc j)
    have nr: "\<not> n < radix"
    proof
      assume "n < radix"
      moreover have "radix ^ 1 \<le> radix ^ k"
        using "1.prems"(1) Suc by (intro power_increasing) auto
      ultimately show False using "1.prems"(2) by simp
    qed
    have "radix ^ j \<le> n div radix"
      using "1.prems" Suc by (simp add: less_eq_div_iff_mult_less_eq mult.commute)
    then have "j < length (digits radix (n div radix))"
      using nr "1.prems"(1) by (intro "1.IH") auto
    then show ?thesis
      using nr "1.prems"(1) Suc by (simp add: digits.simps [of radix n])
  qed
qed

section \<open>Conversions between strings and BigInts\<close>

lemma char_eq_code: "c = d \<longleftrightarrow> (of_char c :: nat) = of_char d"
  by simp

lemma is_digit_10_iff: "is_digit 10 c \<longleftrightarrow> is_decimal_digit c"
  by (auto simp: is_digit_def digit_value_def is_decimal_digit_def Let_def)

lemma is_digit_2_iff: "is_digit 2 c \<longleftrightarrow> c = CHR ''0'' \<or> c = CHR ''1''"
  unfolding char_eq_code [of c]
  by (auto simp: is_digit_def digit_value_def Let_def)

lemma decimal_digit_not_white_space: "is_decimal_digit c \<Longrightarrow> \<not> is_white_space c"
  by (auto simp: is_decimal_digit_def is_white_space_def)

lemma decimal_digit_not_sign: "is_decimal_digit c \<Longrightarrow> c \<noteq> CHR ''-'' \<and> c \<noteq> CHR ''+''"
  unfolding char_eq_code [of c]
  by (auto simp: is_decimal_digit_def)

lemma decimal_digit_no_radix: "is_decimal_digit c \<Longrightarrow> nondecimal_radix c = None"
  unfolding nondecimal_radix_def char_eq_code [of c]
  by (auto simp: is_decimal_digit_def)

lemma minus_not_white_space: "\<not> is_white_space CHR ''-''"
  by (simp add: is_white_space_def)

lemma trim_id:
  assumes "s \<noteq> []" "\<not> is_white_space (hd s)" "\<not> is_white_space (last s)"
  shows "trim s = s"
proof -
  have "dropWhile is_white_space s = s"
    using assms(1,2) by (simp add: dropWhile_eq_self_iff)
  moreover have "dropWhile is_white_space (rev s) = rev s"
    using assms(1,3) by (simp add: dropWhile_eq_self_iff hd_rev)
  ultimately show ?thesis
    by (simp add: trim_def)
qed

lemma StringToBigInt_decimal:
  assumes "s \<noteq> []" "list_all is_decimal_digit s"
  shows "StringToBigInt s = Some (int (digits_value 10 s))"
proof -
  obtain c cs where s: "s = c # cs"
    using assms(1) by (cases s) auto
  have c: "is_decimal_digit c" and cs: "list_all is_decimal_digit cs"
    using assms(2) s by auto
  have "is_decimal_digit (last s)"
    using assms by (simp add: list_all_iff)
  then have "trim s = s"
    using assms(1) c s by (intro trim_id) (auto simp: decimal_digit_not_white_space)
  moreover have "(if c = CHR ''0'' then (case cs of [] \<Rightarrow> None | p # _ \<Rightarrow> nondecimal_radix p)
      else None) = None"
    using cs by (cases cs) (auto simp: decimal_digit_no_radix)
  moreover have "list_all (is_digit 10) (c # cs)"
    using assms(2) s by (simp add: is_digit_10_iff list_all_iff)
  ultimately show ?thesis
    using decimal_digit_not_sign [OF c] s
    by (simp add: StringToBigInt_def unsigned_digits_def)
qed

lemma digits_10_decimal: "list_all is_decimal_digit (digits 10 n)"
  using digits_all_digits [of 10 n] by (simp add: is_digit_10_iff list_all_iff)

lemma StringToBigInt_toString: "StringToBigInt (BigInt_toString n 10) = Some n"
proof (cases "n < 0")
  case False
  then show ?thesis
    by (simp add: BigInt_toString_def StringToBigInt_decimal digits_not_Nil digits_10_decimal
        digits_value_digits)
next
  case True
  let ?ds = "digits 10 (nat (- n))"
  have "is_decimal_digit (last ?ds)"
    using digits_10_decimal [of "nat (- n)"] digits_not_Nil [of 10 "nat (- n)"]
    by (simp add: list_all_iff)
  then have "trim (CHR ''-'' # ?ds) = CHR ''-'' # ?ds"
    using digits_not_Nil [of 10 "nat (- n)"]
    by (intro trim_id) (auto simp: decimal_digit_not_white_space minus_not_white_space)
  moreover have "unsigned_digits 10 ?ds = Some (int (nat (- n)))"
    using digits_all_digits [of 10 "nat (- n)"]
    by (simp add: unsigned_digits_def digits_not_Nil digits_value_digits)
  ultimately show ?thesis
    using True by (simp add: BigInt_toString_def StringToBigInt_def)
qed

lemma BigInt_of_string_toString: "BigInt_of_string (BigInt_toString n 10) = Inr n"
  by (simp add: BigInt_of_string_def StringToBigInt_toString)

section \<open>Evaluation\<close>

lemma round_to_double_small: "\<bar>n\<bar> < 2 ^ 53 \<Longrightarrow> round_to_double n = Num n"
  unfolding round_to_double_def Let_def by (simp add: nat_less_iff)

text \<open>The equations that evaluate the codec on a concrete input.\<close>

lemmas eval_simps =
  StringToBigInt_def trim_def is_white_space_def nondecimal_radix_def unsigned_digits_def
  is_digit_def digit_value_def digits_value_def BigInt_of_string_def BigInt_toString_def
  digits.simps digit_char_def char_of_eq_iff binary_def substring_def clamp_index_def
  cached64BitZeros_def extractBits_def parseInt_def truthy_def round_to_double_small
  Date_valueOf_def TimeClip_def BigInt_of_number_def number_rem_def Number_of_BigInt_def
  Let_def

section \<open>Binary strings\<close>

lemma cached64BitZeros_replicate: "cached64BitZeros = replicate 64 CHR ''0''"
  by (simp add: cached64BitZeros_def numeral_eq_Suc)

lemma digits_value_zeros: "digits_value radix (replicate k CHR ''0'') = 0"
proof (induction k)
  case 0
  then show ?case by (simp add: digits_value_Nil)
next
  case (Suc k)
  have "digits_value radix ([CHR ''0''] @ replicate k CHR ''0'')
      = digits_value radix [CHR ''0''] * radix ^ length (replicate k CHR ''0'')
        + digits_value radix (replicate k CHR ''0'')"
    by (rule digits_value_append)
  moreover have "digits_value radix [CHR ''0''] = 0"
    by (simp add: digits_value_def digit_value_def)
  ultimately show ?case
    using Suc by simp
qed

lemma is_digit_bound: "is_digit radix c \<Longrightarrow> (case digit_value c of None \<Rightarrow> 0 | Some d \<Rightarrow> d) < radix"
  by (auto simp: is_digit_def split: option.splits)

lemma digits_value_less:
  "list_all (is_digit radix) xs \<Longrightarrow> digits_value radix xs < radix ^ length xs"
proof (induction xs rule: rev_induct)
  case Nil
  then show ?case by (simp add: digits_value_Nil)
next
  case (snoc x xs)
  let ?d = "case digit_value x of None \<Rightarrow> 0 | Some d \<Rightarrow> d"
  have d: "?d < radix"
    using snoc.prems by (intro is_digit_bound) simp
  have v: "digits_value radix xs < radix ^ length xs"
    using snoc by simp
  then have "Suc (digits_value radix xs) \<le> radix ^ length xs"
    by simp
  then have "Suc (digits_value radix xs) * radix \<le> radix ^ length xs * radix"
    by (rule mult_le_mono1)
  then have "digits_value radix xs * radix + ?d < radix ^ length xs * radix"
    using d by simp
  then show ?case
    by (simp add: digits_value_snoc mult.commute)
qed

lemma digits_value_slice:
  assumes "list_all (is_digit 2) xs" "j + k \<le> length xs"
  shows "digits_value 2 (take k (drop j xs))
           = (digits_value 2 xs div 2 ^ (length xs - (j + k))) mod 2 ^ k"
proof -
  let ?a = "take j xs" and ?b = "take k (drop j xs)" and ?c = "drop (j + k) xs"
  let ?l = "length xs - (j + k)"
  have split: "xs = (?a @ ?b) @ ?c"
    by (simp add: take_add [symmetric] add.commute)
  have lb: "length ?b = k" and lc: "length ?c = ?l"
    using assms(2) by auto
  have "list_all (is_digit 2) ?b" "list_all (is_digit 2) ?c"
    using assms(1) by (auto simp: list_all_iff dest: in_set_takeD in_set_dropD)
  then have b: "digits_value 2 ?b < 2 ^ k" and c: "digits_value 2 ?c < 2 ^ ?l"
    using digits_value_less [of 2 ?b] digits_value_less [of 2 ?c] lb lc by auto
  have "digits_value 2 xs = digits_value 2 (?a @ ?b) * 2 ^ ?l + digits_value 2 ?c"
    using digits_value_append [of 2 "?a @ ?b" ?c] split lc by simp
  then have "digits_value 2 xs div 2 ^ ?l = digits_value 2 (?a @ ?b)"
    using c by simp
  also have "\<dots> = digits_value 2 ?a * 2 ^ k + digits_value 2 ?b"
    using digits_value_append [of 2 ?a ?b] lb by simp
  finally show ?thesis
    using b by simp
qed

lemma digits_value_drop:
  assumes "list_all (is_digit 2) xs" "j \<le> length xs"
  shows "digits_value 2 (drop j xs) = digits_value 2 xs mod 2 ^ (length xs - j)"
  using digits_value_slice [OF assms(1), of j "length xs - j"] assms(2) by simp

text \<open>A binary string of 64 characters: the digits of a value below \<open>2 ^ 64\<close>, padded.\<close>

lemma padded_digits:
  fixes m :: nat
  defines "B \<equiv> replicate (64 - length (digits 2 m)) CHR ''0'' @ digits 2 m"
  assumes "m < 2 ^ 64"
  shows "length B = 64" and "list_all (is_digit 2) B" and "digits_value 2 B = m"
proof -
  have "length (digits 2 m) \<le> 64"
    using assms(2) by (intro length_digits_le) auto
  then show "length B = 64"
    by (simp add: B_def)
  have "is_digit 2 CHR ''0''"
    by (simp add: is_digit_2_iff)
  then show "list_all (is_digit 2) B"
    using digits_all_digits [of 2 m] by (auto simp: B_def list_all_iff)
  show "digits_value 2 B = m"
    by (simp add: B_def digits_value_append digits_value_zeros digits_value_digits)
qed

section \<open>The helpers of the codec\<close>

lemma substring_from:
  "0 \<le> a \<Longrightarrow> substring s (Num a) None = drop (nat a) s"
  by (simp add: substring_def clamp_index_def Let_def min_def)

lemma substring_range:
  "0 \<le> a \<Longrightarrow> a \<le> b \<Longrightarrow>
     substring s (Num a) (Some (Num b)) = take (nat b - nat a) (drop (nat a) s)"
  by (auto simp: substring_def clamp_index_def Let_def min_def max_def)

lemma parseInt_binary:
  assumes "Z \<noteq> []" "list_all (is_digit 2) Z"
  shows "parseInt Z 2 = round_to_double (int (digits_value 2 Z))"
proof -
  obtain c cs where Z: "Z = c # cs"
    using assms(1) by (cases Z) auto
  have c: "c = CHR ''0'' \<or> c = CHR ''1''"
    using assms(2) Z by (simp add: is_digit_2_iff)
  then have "\<not> is_white_space c" "c \<noteq> CHR ''-''" "c \<noteq> CHR ''+''"
    by (auto simp: is_white_space_def)
  moreover have "takeWhile (is_digit 2) (c # cs) = c # cs"
    using assms(2) Z by (simp add: takeWhile_eq_all_conv list_all_iff)
  ultimately show ?thesis
    unfolding parseInt_def Z by (simp add: Let_def)
qed

lemma binary_padded:
  assumes "StringToBigInt snowflake = Some n" "0 \<le> n" "n < 2 ^ 64"
  shows "binary snowflake
           = Inr (replicate (64 - length (digits 2 (nat n))) CHR ''0'' @ digits 2 (nat n))"
proof -
  have "nat n < 2 ^ 64"
    using assms(2,3) by (simp add: nat_less_iff)
  then have "length (digits 2 (nat n)) \<le> 64"
    by (intro length_digits_le) auto
  then show ?thesis
    using assms(1,2)
    by (auto simp: binary_def BigInt_of_string_def BigInt_toString_def Let_def
        cached64BitZeros_replicate substring_range)
qed

lemma binary_error: "StringToBigInt snowflake = None \<Longrightarrow> binary snowflake = Inl SyntaxError"
  by (simp add: binary_def BigInt_of_string_def)

lemma binary_returns: "StringToBigInt snowflake = Some n \<Longrightarrow> \<exists>b. binary snowflake = Inr b"
  by (simp add: binary_def BigInt_of_string_def Let_def)

lemma extractBits_returns:
  "StringToBigInt snowflake = Some n \<Longrightarrow> \<exists>v. extractBits snowflake start len = Inr v"
  using binary_returns [of snowflake n] by (auto simp: extractBits_def)

lemma extractBits_to_end:
  assumes "binary snowflake = Inr B" "list_all (is_digit 2) B" "0 \<le> start" "nat start < length B"
  shows "extractBits snowflake (Num start) None
           = Inr (round_to_double (int (digits_value 2 (drop (nat start) B))))"
proof -
  have "drop (nat start) B \<noteq> []"
    using assms(4) by simp
  moreover have "list_all (is_digit 2) (drop (nat start) B)"
    using assms(2) by (auto simp: list_all_iff dest: in_set_dropD)
  ultimately show ?thesis
    using assms(1,3) by (simp add: extractBits_def substring_from parseInt_binary)
qed

lemma number_add_small:
  "\<bar>a + b\<bar> < 2 ^ 53 \<Longrightarrow> number_add (Num a) (Num b) = Num (a + b)"
  by (simp add: round_to_double_small)

lemma extractBits_range:
  assumes "binary snowflake = Inr B" "list_all (is_digit 2) B" "0 \<le> start" "nat start < length B"
    and "1 \<le> len" "start + len < 2 ^ 53"
  shows "extractBits snowflake (Num start) (Some (Num len))
           = Inr (round_to_double (int (digits_value 2 (take (nat len) (drop (nat start) B)))))"
proof -
  let ?sub = "take (nat len) (drop (nat start) B)"
  have "?sub \<noteq> []"
    using assms(4,5) by simp
  moreover have "list_all (is_digit 2) ?sub"
    using assms(2) by (auto simp: list_all_iff dest: in_set_dropD in_set_takeD)
  moreover have "number_add (Num start) (Num len) = Num (start + len)"
    using assms(3,5,6) by (intro number_add_small) simp
  moreover have "nat (start + len) - nat start = nat len"
    using assms(3,5) by simp
  ultimately show ?thesis
    using assms(1,3,5) by (simp add: extractBits_def truthy_def substring_range parseInt_binary)
qed

section \<open>Decoding an identifier below \<open>2 ^ 64\<close>\<close>

lemma extractBits_shard:
  assumes "StringToBigInt snowflake = Some n" "0 \<le> n" "n < 2 ^ 64"
  shows "extractBits snowflake (Num 42) (Some (Num 10)) = Inr (Num (take_bit 10 (drop_bit 12 n)))"
proof -
  let ?m = "nat n"
  let ?B = "replicate (64 - length (digits 2 ?m)) CHR ''0'' @ digits 2 ?m"
  have m: "?m < 2 ^ 64"
    using assms(2,3) by (simp add: nat_less_iff)
  note B = padded_digits [OF m]
  have bin: "binary snowflake = Inr ?B"
    using assms by (rule binary_padded)
  have "digits_value 2 (take 10 (drop 42 ?B)) = (?m div 2 ^ 12) mod 2 ^ 10"
    using digits_value_slice [of ?B 42 10] B by simp
  moreover have "int ((?m div 2 ^ 12) mod 2 ^ 10) = take_bit 10 (drop_bit 12 n)"
    using assms(2) by (simp add: take_bit_eq_mod drop_bit_eq_div zmod_int zdiv_int)
  moreover have "take_bit 10 (drop_bit 12 n) < 2 ^ 53"
    using take_bit_int_less_exp [of 10 "drop_bit 12 n"] by simp
  moreover have "0 \<le> take_bit 10 (drop_bit 12 n)"
    by simp
  ultimately show ?thesis
    using extractBits_range [OF bin B(2), of 42 10] B(1)
    by (simp add: round_to_double_small)
qed

lemma extractBits_sequence:
  assumes "StringToBigInt snowflake = Some n" "0 \<le> n" "n < 2 ^ 64"
  shows "extractBits snowflake (Num 52) None = Inr (Num (take_bit 12 n))"
proof -
  let ?m = "nat n"
  let ?B = "replicate (64 - length (digits 2 ?m)) CHR ''0'' @ digits 2 ?m"
  have m: "?m < 2 ^ 64"
    using assms(2,3) by (simp add: nat_less_iff)
  note B = padded_digits [OF m]
  have bin: "binary snowflake = Inr ?B"
    using assms by (rule binary_padded)
  have "digits_value 2 (drop 52 ?B) = ?m mod 2 ^ 12"
    using digits_value_drop [of ?B 52] B by simp
  moreover have "int (?m mod 2 ^ 12) = take_bit 12 n"
    using assms(2) by (simp add: take_bit_eq_mod zmod_int)
  moreover have "take_bit 12 n < 2 ^ 53"
    using take_bit_int_less_exp [of 12 n] by simp
  moreover have "0 \<le> take_bit 12 n"
    by simp
  ultimately show ?thesis
    using extractBits_to_end [OF bin B(2), of 52] B(1)
    by (simp add: round_to_double_small)
qed

lemma parse_64:
  assumes "StringToBigInt snowflake = Some n" "0 \<le> n" "n < 2 ^ 64"
    and "Date_valueOf (case epoch of None \<Rightarrow> Millis (EPOCH st) | Some e \<Rightarrow> e) = Num E"
  shows "parse st snowflake epoch
           = Inr \<lparr>timestamp = round_to_double (drop_bit 22 n + E),
                  shard_id = Num (take_bit 10 (drop_bit 12 n)),
                  sequence = Num (take_bit 12 n),
                  binary_string =
                    replicate (64 - length (digits 2 (nat n))) CHR ''0'' @ digits 2 (nat n)\<rparr>"
  using assms
  by (simp add: parse_def binary_padded BigInt_of_string_def BigInt_of_number_def
      extractBits_shard extractBits_sequence Number_of_BigInt_def)

section \<open>The encoded value\<close>

lemma encoded_bounds:
  fixes t sh sq :: int
  assumes "0 \<le> t" "t < 2 ^ 42" "0 \<le> sh" "sh < 2 ^ 10" "0 \<le> sq" "sq < 2 ^ 12"
  shows "0 \<le> push_bit 22 t OR push_bit 12 sh OR sq"
    and "push_bit 22 t OR push_bit 12 sh OR sq < 2 ^ 64"
proof -
  show "0 \<le> push_bit 22 t OR push_bit 12 sh OR sq"
    using assms by simp
  have "push_bit 22 t < 2 ^ 64" "push_bit 12 sh < 2 ^ 64" "sq < 2 ^ 64"
    using assms by (simp_all add: push_bit_eq_mult)
  moreover have "0 \<le> push_bit 22 t" "0 \<le> push_bit 12 sh"
    using assms by simp_all
  ultimately show "push_bit 22 t OR push_bit 12 sh OR sq < 2 ^ 64"
    using assms(5) by (intro OR_upper) auto
qed

lemma encoded_timestamp:
  fixes t sh sq :: int
  assumes "0 \<le> sh" "sh < 2 ^ 10" "0 \<le> sq" "sq < 2 ^ 12"
  shows "drop_bit 22 (push_bit 22 t OR push_bit 12 sh OR sq) = t"
proof -
  have "drop_bit 22 sq = 0" "drop_bit 10 sh = 0"
    using assms by (simp_all add: drop_bit_eq_div)
  then show ?thesis
    by (simp add: drop_bit_or drop_bit_push_bit_int)
qed

lemma encoded_shard:
  fixes t sh sq :: int
  assumes "0 \<le> sh" "sh < 2 ^ 10" "0 \<le> sq" "sq < 2 ^ 12"
  shows "take_bit 10 (drop_bit 12 (push_bit 22 t OR push_bit 12 sh OR sq)) = sh"
proof -
  have "drop_bit 12 sq = 0"
    using assms by (simp add: drop_bit_eq_div)
  moreover have "take_bit 10 sh = sh"
    using assms by (simp add: take_bit_int_eq_self)
  ultimately show ?thesis
    by (simp add: drop_bit_or drop_bit_push_bit_int take_bit_or take_bit_push_bit)
qed

lemma encoded_sequence:
  fixes t sh sq :: int
  assumes "0 \<le> sq" "sq < 2 ^ 12"
  shows "take_bit 12 (push_bit 22 t OR push_bit 12 sh OR sq) = sq"
proof -
  have "take_bit 12 sq = sq"
    using assms by (simp add: take_bit_int_eq_self)
  then show ?thesis
    by (simp add: take_bit_or take_bit_push_bit)
qed

section \<open>What \<^verbatim>\<open>generate\<close> returns\<close>

lemma generate_returns:
  assumes "Date_valueOf (case ts of None \<Rightarrow> Millis now | Some t \<Rightarrow> t) = Num T"
    and "Date_valueOf (case ep of None \<Rightarrow> Millis (EPOCH st) | Some e \<Rightarrow> e) = Num E"
    and "(case sh of None \<Rightarrow> SHARD_ID st | Some s \<Rightarrow> s) = Num S"
    and "SEQUENCE st = Num Q"
  shows "generate st now ts sh ep =
           (Inr (BigInt_toString
                   (push_bit 22 (T - E) OR push_bit 12 (sgn S * (\<bar>S\<bar> mod 1024))
                      OR sgn Q * (\<bar>Q\<bar> mod 4096)) 10),
            st\<lparr>SEQUENCE := round_to_double (Q + 1)\<rparr>)"
  using assms
  by (simp add: generate_def BigInt_of_number_def number_rem_def Let_def or.assoc)

lemma generate_throws_timestamp:
  assumes "\<forall>T. Date_valueOf (case ts of None \<Rightarrow> Millis now | Some t \<Rightarrow> t) \<noteq> Num T"
  shows "generate st now ts sh ep = (Inl RangeError, st)"
  using assms
  by (cases "Date_valueOf (case ts of None \<Rightarrow> Millis now | Some t \<Rightarrow> t)")
    (simp_all add: generate_def BigInt_of_number_def Let_def)

lemma generate_state:
  assumes "generate st now ts sh ep = (r, st')"
  shows "EPOCH st' = EPOCH st" and "SHARD_ID st' = SHARD_ID st"
    and "(\<exists>e. r = Inl e) \<Longrightarrow> SEQUENCE st = Num Q \<Longrightarrow> st' = st"
    and "(\<exists>e. r = Inl e) \<Longrightarrow> r = Inl RangeError"
  using assms
  by (auto simp: generate_def BigInt_of_number_def number_rem_def Let_def
      split: sum.splits number.splits if_splits)

lemma rem_mod_4096: "take_bit 12 (sgn Q * (\<bar>Q\<bar> mod 4096)) = Q mod (4096 :: int)"
proof (cases "0 \<le> Q")
  case True
  then show ?thesis
    by (cases "Q = 0") (simp_all add: take_bit_eq_mod)
next
  case False
  then have "sgn Q * (\<bar>Q\<bar> mod 4096) = - ((- Q) mod 4096)"
    by simp
  then show ?thesis
    by (simp add: take_bit_eq_mod mod_minus_eq)
qed

lemma rem_nonneg: "0 \<le> S \<Longrightarrow> 0 < d \<Longrightarrow> sgn S * (\<bar>S\<bar> mod d) = S mod (d :: int)"
  by (cases "S = 0") simp_all

section \<open>Generating and parsing\<close>

lemma Date_valueOf_bound: "Date_valueOf x = Num v \<Longrightarrow> \<bar>v\<bar> \<le> 8640000000000000"
  by (auto simp: Date_valueOf_def TimeClip_def split: time_arg.splits number.splits if_splits)

lemma Date_valueOf_Millis:
  "\<bar>v\<bar> \<le> 8640000000000000 \<Longrightarrow> Date_valueOf (Millis (Num v)) = Num v"
  by (simp add: Date_valueOf_def TimeClip_def)

lemma round_trip:
  assumes "Date_valueOf ts = Num (T + E)" "Date_valueOf ep = Num E"
    and "0 \<le> T" "T < 2 ^ 42" "0 \<le> S" "0 \<le> Q" "SEQUENCE st = Num Q"
  shows "\<exists>id bin.
           generate st now (Some ts) (Some (Num S)) (Some ep)
             = (Inr id, st\<lparr>SEQUENCE := round_to_double (Q + 1)\<rparr>)
         \<and> id = BigInt_toString (push_bit 22 T OR push_bit 12 (S mod 1024) OR Q mod 4096) 10
         \<and> parse st0 id (Some ep)
             = Inr \<lparr>timestamp = Num (T + E), shard_id = Num (S mod 1024),
                    sequence = Num (Q mod 4096), binary_string = bin\<rparr>"
proof -
  let ?n = "push_bit 22 T OR push_bit 12 (S mod 1024) OR Q mod 4096"
  let ?id = "BigInt_toString ?n 10"
  have sh: "0 \<le> S mod 1024" "S mod 1024 < 2 ^ 10" and sq: "0 \<le> Q mod 4096" "Q mod 4096 < 2 ^ 12"
    by simp_all
  have rem: "sgn S * (\<bar>S\<bar> mod 1024) = S mod 1024" "sgn Q * (\<bar>Q\<bar> mod 4096) = Q mod 4096"
    using assms(5,6) by (simp_all only: rem_nonneg zero_less_numeral)
  have "generate st now (Some ts) (Some (Num S)) (Some ep)
      = (Inr (BigInt_toString
                (push_bit 22 (T + E - E) OR push_bit 12 (sgn S * (\<bar>S\<bar> mod 1024))
                   OR sgn Q * (\<bar>Q\<bar> mod 4096)) 10),
         st\<lparr>SEQUENCE := round_to_double (Q + 1)\<rparr>)"
    by (rule generate_returns) (use assms in simp_all)
  then have gen: "generate st now (Some ts) (Some (Num S)) (Some ep)
      = (Inr ?id, st\<lparr>SEQUENCE := round_to_double (Q + 1)\<rparr>)"
    by (simp only: rem add_diff_cancel)
  have n: "0 \<le> ?n" "?n < 2 ^ 64"
    using encoded_bounds [OF assms(3,4) sh sq] by simp_all
  have "\<bar>T + E\<bar> < 2 ^ 53"
    using Date_valueOf_bound [OF assms(1)] by simp
  moreover have "drop_bit 22 ?n = T"
    by (rule encoded_timestamp [OF sh sq])
  ultimately have ts: "round_to_double (drop_bit 22 ?n + E) = Num (T + E)"
    by (simp only: round_to_double_small)
  have "parse st0 ?id (Some ep)
      = Inr \<lparr>timestamp = Num (T + E), shard_id = Num (S mod 1024),
             sequence = Num (Q mod 4096),
             binary_string =
               replicate (64 - length (digits 2 (nat ?n))) CHR ''0'' @ digits 2 (nat ?n)\<rparr>"
    using parse_64 [OF StringToBigInt_toString n, where epoch = "Some ep" and st = st0 and E = E]
      assms(2)
    by (simp only: ts encoded_shard [OF sh sq] encoded_sequence [OF sq] option.case)
  with gen show ?thesis
    by blast
qed

text \<open>
  A shard id that is not negative is reduced modulo 1024 before it is encoded: the shard
  field that \<^verbatim>\<open>parse\<close> reads back is \<open>S mod 1024\<close>, and the shard ids \<open>S\<close> and \<open>S mod 1024\<close>,
  such as 1025 and 1, give the same identifier.
\<close>

lemma shard_wrap_nonnegative:
  assumes "Date_valueOf ts = Num (T + E)" and "Date_valueOf ep = Num E"
    and "0 \<le> T" and "T < 2 ^ 42" and "0 \<le> S" and "0 \<le> Q" and "SEQUENCE st = Num Q"
  shows "\<exists>snowflake st' d.
           generate st now (Some ts) (Some (Num S)) (Some ep) = (Inr snowflake, st')
         \<and> generate st now (Some ts) (Some (Num (S mod 1024))) (Some ep) = (Inr snowflake, st')
         \<and> parse st' snowflake (Some ep) = Inr d \<and> shard_id d = Num (S mod 1024)"
proof -
  have m: "0 \<le> S mod 1024"
    by simp
  from round_trip [OF assms, of now "st\<lparr>SEQUENCE := round_to_double (Q + 1)\<rparr>"]
    round_trip [OF assms(1-4) m assms(6,7), of now "st\<lparr>SEQUENCE := round_to_double (Q + 1)\<rparr>"]
  show ?thesis
    by (auto simp: mod_mod_trivial)
qed

section \<open>Repeated calls\<close>

lemma upt_0_Suc: "[0..<Suc n] = 0 # map Suc [0..<n]"
  by (simp add: upt_conv_Cons map_Suc_upt del: upt_Suc)

lemma generate_calls_results:
  assumes "Date_valueOf (case ts of None \<Rightarrow> Millis now | Some t \<Rightarrow> t) = Num T"
    and "Date_valueOf (case ep of None \<Rightarrow> Millis (EPOCH st) | Some e \<Rightarrow> e) = Num E"
    and "(case sh of None \<Rightarrow> SHARD_ID st | Some s \<Rightarrow> s) = Num S"
    and "SEQUENCE st = Num Q" and "0 \<le> Q" and "Q + int n < 2 ^ 53"
  shows "generate_calls n st now ts sh ep =
           (map (\<lambda>i. Inr (BigInt_toString
                            (push_bit 22 (T - E) OR push_bit 12 (sgn S * (\<bar>S\<bar> mod 1024))
                               OR (Q + int i) mod 4096) 10)) [0..<n],
            st\<lparr>SEQUENCE := Num (Q + int n)\<rparr>)"
  using assms
proof (induction n arbitrary: st Q)
  case 0
  then show ?case by simp
next
  case (Suc n)
  let ?st1 = "st\<lparr>SEQUENCE := Num (Q + 1)\<rparr>"
  have "\<bar>Q + 1\<bar> < 2 ^ 53"
    using Suc.prems(5,6) by simp
  then have rd: "round_to_double (Q + 1) = Num (Q + 1)"
    by (rule round_to_double_small)
  have rem: "sgn Q * (\<bar>Q\<bar> mod 4096) = Q mod 4096"
    using Suc.prems(5) by (simp only: rem_nonneg zero_less_numeral)
  have first: "generate st now ts sh ep =
      (Inr (BigInt_toString
              (push_bit 22 (T - E) OR push_bit 12 (sgn S * (\<bar>S\<bar> mod 1024)) OR Q mod 4096) 10),
       ?st1)"
    using generate_returns [OF Suc.prems(1-4)] by (simp only: rd rem)
  have rest: "generate_calls n ?st1 now ts sh ep =
      (map (\<lambda>i. Inr (BigInt_toString
                       (push_bit 22 (T - E) OR push_bit 12 (sgn S * (\<bar>S\<bar> mod 1024))
                          OR (Q + 1 + int i) mod 4096) 10)) [0..<n],
       ?st1\<lparr>SEQUENCE := Num (Q + 1 + int n)\<rparr>)"
    using Suc.prems by (intro Suc.IH) (auto split: option.splits)
  have "generate_calls (Suc n) st now ts sh ep =
      (Inr (BigInt_toString
              (push_bit 22 (T - E) OR push_bit 12 (sgn S * (\<bar>S\<bar> mod 1024)) OR Q mod 4096) 10)
         # map (\<lambda>i. Inr (BigInt_toString
                       (push_bit 22 (T - E) OR push_bit 12 (sgn S * (\<bar>S\<bar> mod 1024))
                          OR (Q + 1 + int i) mod 4096) 10)) [0..<n],
       ?st1\<lparr>SEQUENCE := Num (Q + 1 + int n)\<rparr>)"
    by (simp only: generate_calls.simps first rest prod.case)
  then show ?case
    by (simp add: upt_0_Suc comp_def ac_simps del: upt_Suc)
qed

lemma parsed_sequence_encoded:
  assumes "Date_valueOf ts = Num (T + E)" and "Date_valueOf ep = Num E"
    and "0 \<le> T" and "T < 2 ^ 42" and "0 \<le> S" and "0 \<le> Q"
  shows "parsed_sequence st0 (Some ep)
           (Inr (BigInt_toString (push_bit 22 T OR push_bit 12 (S mod 1024) OR Q mod 4096) 10))
         = Some (Num (Q mod 4096))"
proof -
  have "SEQUENCE (st0\<lparr>SEQUENCE := Num Q\<rparr>) = Num Q"
    by simp
  from round_trip [OF assms this, of undefined st0]
  show ?thesis
    by (auto simp: parsed_sequence_def)
qed

lemma generate_calls_sequences:
  assumes "Date_valueOf ts = Num (T + E)" and "Date_valueOf ep = Num E"
    and "0 \<le> T" and "T < 2 ^ 42" and "0 \<le> S"
    and "SEQUENCE st = Num Q" and "0 \<le> Q" and "Q + int n < 2 ^ 53"
  shows "map (parsed_sequence st0 (Some ep))
           (fst (generate_calls n st now (Some ts) (Some (Num S)) (Some ep)))
         = map (\<lambda>i. Some (Num ((Q + int i) mod 4096))) [0..<n]"
proof -
  have rem: "sgn S * (\<bar>S\<bar> mod 1024) = S mod 1024"
    using assms(5) by (simp only: rem_nonneg zero_less_numeral)
  have "generate_calls n st now (Some ts) (Some (Num S)) (Some ep) =
      (map (\<lambda>i. Inr (BigInt_toString
                       (push_bit 22 (T + E - E) OR push_bit 12 (sgn S * (\<bar>S\<bar> mod 1024))
                          OR (Q + int i) mod 4096) 10)) [0..<n],
       st\<lparr>SEQUENCE := Num (Q + int n)\<rparr>)"
    by (rule generate_calls_results) (use assms in simp_all)
  then have "fst (generate_calls n st now (Some ts) (Some (Num S)) (Some ep)) =
      map (\<lambda>i. Inr (BigInt_toString
                      (push_bit 22 T OR push_bit 12 (S mod 1024) OR (Q + int i) mod 4096) 10))
        [0..<n]"
    by (simp only: rem add_diff_cancel fst_conv)
  moreover have "parsed_sequence st0 (Some ep)
      (Inr (BigInt_toString (push_bit 22 T OR push_bit 12 (S mod 1024) OR (Q + int i) mod 4096) 10))
      = Some (Num ((Q + int i) mod 4096))" for i
    using assms(7) by (intro parsed_sequence_encoded [OF assms(1-5)]) simp
  ultimately show ?thesis
    by (simp only: map_map comp_def)
qed

section \<open>The value of a binary string\<close>

lemma digits_value_Cons:
  "digits_value radix (c # cs) =
     (case digit_value c of None \<Rightarrow> 0 | Some d \<Rightarrow> d) * radix ^ length cs + digits_value radix cs"
  using digits_value_append [of radix "[c]" cs] by (simp add: digits_value_def)

lemma digits_value_spec:
  "list_all (is_digit 2) xs \<Longrightarrow> digits_value 2 xs = spec_base2_value xs"
proof (induction xs)
  case Nil
  then show ?case by (simp add: digits_value_Nil)
next
  case (Cons c cs)
  then have "c = CHR ''0'' \<or> c = CHR ''1''"
    by (simp add: is_digit_2_iff)
  then have "(case digit_value c of None \<Rightarrow> 0 | Some d \<Rightarrow> d) = (if c = CHR ''1'' then 1 else 0)"
    by (auto simp: digit_value_def)
  then show ?case
    using Cons by (simp add: digits_value_Cons)
qed

lemma round_to_double_binary:
  assumes "list_all (is_digit 2) xs" "length xs \<le> 53"
  shows "round_to_double (int (digits_value 2 xs)) = Num (int (digits_value 2 xs))"
proof -
  have "digits_value 2 xs < 2 ^ length xs"
    using assms(1) by (rule digits_value_less)
  also have "(2 :: nat) ^ length xs \<le> 2 ^ 53"
    using assms(2) by (intro power_increasing) auto
  finally have "int (digits_value 2 xs) < 2 ^ 53"
    by (metis of_nat_less_iff of_nat_numeral of_nat_power)
  then show ?thesis
    by (intro round_to_double_small) simp
qed

section \<open>When \<^verbatim>\<open>parse\<close> throws\<close>

lemma parse_returns_iff:
  "(\<exists>d. parse st snowflake epoch = Inr d) \<longleftrightarrow>
     (\<exists>n. BigInt_of_string snowflake = Inr n)
   \<and> (\<exists>E. Date_valueOf (case epoch of None \<Rightarrow> Millis (EPOCH st) | Some e \<Rightarrow> e) = Num E)"
proof (cases "StringToBigInt snowflake")
  case None
  then show ?thesis
    by (simp add: parse_def binary_error BigInt_of_string_def)
next
  case (Some n)
  obtain b sh sq where "binary snowflake = Inr b"
    "extractBits snowflake (Num 42) (Some (Num 10)) = Inr sh"
    "extractBits snowflake (Num 52) None = Inr sq"
    using binary_returns [OF Some] extractBits_returns [OF Some] by metis
  then show ?thesis
    using Some
    by (cases "Date_valueOf (case epoch of None \<Rightarrow> Millis (EPOCH st) | Some e \<Rightarrow> e)")
      (simp_all add: parse_def BigInt_of_string_def BigInt_of_number_def)
qed

lemma parse_throws:
  assumes "parse st snowflake epoch = Inl err"
  shows "(BigInt_of_string snowflake = Inl SyntaxError \<and> err = SyntaxError)
       \<or> ((\<exists>n. BigInt_of_string snowflake = Inr n) \<and> err = RangeError)"
proof (cases "StringToBigInt snowflake")
  case None
  then show ?thesis
    using assms by (simp add: parse_def binary_error BigInt_of_string_def)
next
  case (Some n)
  obtain b sh sq where "binary snowflake = Inr b"
    "extractBits snowflake (Num 42) (Some (Num 10)) = Inr sh"
    "extractBits snowflake (Num 52) None = Inr sq"
    using binary_returns [OF Some] extractBits_returns [OF Some] by metis
  then show ?thesis
    using Some assms
    by (cases "Date_valueOf (case epoch of None \<Rightarrow> Millis (EPOCH st) | Some e \<Rightarrow> e)")
      (simp_all add: parse_def BigInt_of_string_def BigInt_of_number_def)
qed

section \<open>The claims of the specification\<close>

text \<open>
  Each claim is stated with the model above: a call of a method of the codec is the
  application of the function of the same name to the state of the process (and, for
  \<^verbatim>\<open>generate\<close>, the reading of the clock), and what it returns or throws is the value of
  that application.
\<close>

subsection \<open>C1: the round trip\<close>

text \<open>
  Claim C1, amended. Let the timestamp passed to \<^verbatim>\<open>generate\<close> be the time \<open>T + E\<close>, whose
  offset \<open>T\<close> from the epoch \<open>E\<close> is not negative and fits in 42 bits, let the shard id \<open>S\<close>
  be in [0, 1023] and let \<open>Q \<ge> 0\<close> be the value of the sequence counter at the call. Then
  \<^verbatim>\<open>generate\<close> returns an identifier, and \<^verbatim>\<open>parse\<close> of that identifier with the same epoch
  yields the timestamp \<open>T + E\<close>, the shard id \<open>S\<close> and the sequence \<open>Q mod 4096\<close>.
\<close>

theorem C1_round_trip:
  assumes "Date_valueOf ts = Num (T + E)" and "Date_valueOf ep = Num E"
    and "0 \<le> T" and "T < 2 ^ 42" and "0 \<le> S" and "S < 1024" and "0 \<le> Q"
    and "SEQUENCE st = Num Q"
  shows "\<exists>snowflake st' bin.
           generate st now (Some ts) (Some (Num S)) (Some ep) = (Inr snowflake, st')
         \<and> parse st' snowflake (Some ep)
             = Inr \<lparr>timestamp = Num (T + E), shard_id = Num S, sequence = Num (Q mod 4096),
                    binary_string = bin\<rparr>"
proof -
  have "S mod 1024 = S"
    using assms(5,6) by simp
  then show ?thesis
    using round_trip [OF assms(1-5,7,8), of now "st\<lparr>SEQUENCE := round_to_double (Q + 1)\<rparr>"]
    by auto
qed

theorem C1_round_trip_witness:
  "Date_valueOf (Millis (Num 1005)) = Num (5 + 1000)
   \<and> Date_valueOf (Date (Num 1000)) = Num 1000
   \<and> SEQUENCE (initial_state\<lparr>SEQUENCE := Num 5000\<rparr>) = Num 5000
   \<and> (\<exists>snowflake st' bin.
         generate (initial_state\<lparr>SEQUENCE := Num 5000\<rparr>) (Num 0) (Some (Millis (Num 1005)))
           (Some (Num 1023)) (Some (Date (Num 1000))) = (Inr snowflake, st')
       \<and> parse st' snowflake (Some (Date (Num 1000)))
           = Inr \<lparr>timestamp = Num 1005, shard_id = Num 1023, sequence = Num 904,
                  binary_string = bin\<rparr>)"
  using C1_round_trip [of "Millis (Num 1005)" 5 1000 "Date (Num 1000)" 1023 5000
      "initial_state\<lparr>SEQUENCE := Num 5000\<rparr>" "Num 0"]
  by (simp add: Date_valueOf_def TimeClip_def)

text \<open>
  As the claim is written, the timestamp passed is the offset \<open>T\<close> itself and the result is
  \<open>T + E\<close>. With \<open>T = 5\<close>, \<open>E = 3\<close>, shard id 1 and the counter at 1, the identifier is
  8392705, and \<^verbatim>\<open>parse\<close> yields the timestamp 5 with the epoch 3, and 2 with the default
  epoch: not 8.
\<close>

theorem C1_round_trip_counterexample:
  "generate initial_state (Num 0) (Some (Millis (Num 5))) (Some (Num 1)) (Some (Millis (Num 3)))
     = (Inr ''8392705'', initial_state\<lparr>SEQUENCE := Num 2\<rparr>)
   \<and> map_sum id timestamp
         (parse (initial_state\<lparr>SEQUENCE := Num 2\<rparr>) ''8392705'' (Some (Millis (Num 3))))
       = Inr (Num 5)
   \<and> map_sum id timestamp (parse (initial_state\<lparr>SEQUENCE := Num 2\<rparr>) ''8392705'' None)
       = Inr (Num 2)
   \<and> Num 5 \<noteq> Num (5 + 3) \<and> Num 2 \<noteq> Num (5 + 3)"
  by (simp add: generate_def parse_def initial_state_def eval_simps)

subsection \<open>C2: the concrete example\<close>

text \<open>
  Claim C2. With epoch 0, timestamp 1 ms, shard id 1 and the sequence counter equal to 1 at
  the call, \<^verbatim>\<open>generate\<close> returns the string 4198401 (and leaves the counter at 2), and
  \<^verbatim>\<open>parse("4198401", 0)\<close> returns timestamp 1, shard id 1 and sequence 1, with the 64
  character binary string of 4198401.
\<close>

theorem C2_concrete_example:
  "generate (st\<lparr>SEQUENCE := Num 1\<rparr>) now (Some (Millis (Num 1))) (Some (Num 1))
       (Some (Millis (Num 0)))
     = (Inr ''4198401'', st\<lparr>SEQUENCE := Num 2\<rparr>)
   \<and> parse st' ''4198401'' (Some (Millis (Num 0)))
     = Inr \<lparr>timestamp = Num 1, shard_id = Num 1, sequence = Num 1,
            binary_string =
              ''0000000000000000000000000000000000000000010000000001000000000001''\<rparr>"
  by (simp add: generate_def parse_def eval_simps)

subsection \<open>C3: the shard id\<close>

text \<open>
  Claim C3 has every integer shard id reduced modulo 1024 into [0, 1023] before it is
  encoded, which \<^verbatim>\<open>generate\<close> does for a shard id that is not negative
  (\<open>shard_wrap_nonnegative\<close>). This is the claim at a negative shard id. The remainder
  of line 65 keeps the sign of the shard id: for the shard id -1 it is -1, not 1023, and
  -1 shifted left by 12 bits is -4096, which sets every bit of the timestamp field when it
  is combined with the rest. In the initial
  state, with timestamp 1 and epoch 0, \<^verbatim>\<open>generate\<close> returns -4095 where the claim has
  8384513 (timestamp 1, shard 1023, sequence 1); \<^verbatim>\<open>parse\<close> reads the timestamp -1, the
  shard id 0 and the sequence 4095 from it, and \<^verbatim>\<open>isValid\<close> rejects it.
\<close>

theorem C3_shard_negative:
  "generate initial_state (Num 0) (Some (Millis (Num 1))) (Some (Num (- 1))) (Some (Millis (Num 0)))
     = (Inr ''-4095'', initial_state\<lparr>SEQUENCE := Num 2\<rparr>)
   \<and> BigInt_toString (push_bit 22 1 OR push_bit 12 ((- 1) mod 1024) OR 1) 10 = ''8384513''
   \<and> parse initial_state ''-4095'' (Some (Millis (Num 0)))
       = Inr \<lparr>timestamp = Num (- 1), shard_id = Num 0, sequence = Num 4095,
              binary_string =
                ''000000000000000000000000000000000000000000000000000-111111111111''\<rparr>
   \<and> isValid initial_state ''-4095'' = Inr False"
proof -
  have "push_bit 12 (- 1 :: int) = - 4096"
    by (simp only: push_bit_eq_mult) simp
  then show ?thesis
    by (simp add: generate_def parse_def isValid_def regex_test_def initial_state_def eval_simps
        del: push_bit_minus_one_eq_not_mask)
qed

subsection \<open>C4: the sequence over repeated calls\<close>

text \<open>
  Claim C4, amended. The sequence counter of the initial state is 1. Starting there, with
  a fixed timestamp whose offset from the fixed epoch is not negative and fits in 42 bits,
  and a fixed shard id that is not negative, call number \<open>i + 1\<close> of \<^verbatim>\<open>generate\<close> yields an
  identifier whose sequence field, as \<^verbatim>\<open>parse\<close> reads it, is \<open>(i + 1) mod 4096\<close>: the
  first 4096 calls yield 1, 2, ..., 4095, 0 in this order, and call 4097 yields 1.
\<close>

theorem C4_sequence_wrap:
  assumes "Date_valueOf ts = Num (T + E)" and "Date_valueOf ep = Num E"
    and "0 \<le> T" and "T < 2 ^ 42" and "0 \<le> S"
  shows "length (fst (generate_calls 4097 initial_state now (Some ts) (Some (Num S)) (Some ep)))
           = 4097
       \<and> (\<forall>i<4097.
             parsed_sequence pst (Some ep)
               (fst (generate_calls 4097 initial_state now (Some ts) (Some (Num S)) (Some ep)) ! i)
             = Some (Num ((1 + int i) mod 4096)))"
proof -
  let ?rs = "fst (generate_calls 4097 initial_state now (Some ts) (Some (Num S)) (Some ep))"
  have eq: "map (parsed_sequence pst (Some ep)) ?rs
      = map (\<lambda>i. Some (Num ((1 + int i) mod 4096))) [0..<4097]"
    by (rule generate_calls_sequences [OF assms]) (simp_all add: initial_state_def)
  then have "length (map (parsed_sequence pst (Some ep)) ?rs)
      = length (map (\<lambda>i. Some (Num ((1 + int i) mod 4096))) [0..<4097])"
    by (rule arg_cong)
  then have len: "length ?rs = 4097"
    by (simp only: length_map length_upt diff_zero)
  have "parsed_sequence pst (Some ep) (?rs ! i) = Some (Num ((1 + int i) mod 4096))"
    if "i < 4097" for i
  proof -
    have "parsed_sequence pst (Some ep) (?rs ! i) = map (parsed_sequence pst (Some ep)) ?rs ! i"
      using that len by (simp only: nth_map)
    also have "\<dots> = map (\<lambda>i. Some (Num ((1 + int i) mod 4096))) [0..<4097] ! i"
      by (simp only: eq)
    also have "\<dots> = Some (Num ((1 + int i) mod 4096))"
      using that by (simp only: nth_map length_upt nth_upt) simp
    finally show ?thesis .
  qed
  with len show ?thesis
    by blast
qed

theorem C4_sequence_wrap_witness:
  "parsed_sequence initial_state (Some (Millis (Num 0)))
     (fst (generate_calls 4097 initial_state (Num 0) (Some (Millis (Num 1))) (Some (Num 1))
        (Some (Millis (Num 0)))) ! 0) = Some (Num 1)
   \<and> parsed_sequence initial_state (Some (Millis (Num 0)))
     (fst (generate_calls 4097 initial_state (Num 0) (Some (Millis (Num 1))) (Some (Num 1))
        (Some (Millis (Num 0)))) ! 4094) = Some (Num 4095)
   \<and> parsed_sequence initial_state (Some (Millis (Num 0)))
     (fst (generate_calls 4097 initial_state (Num 0) (Some (Millis (Num 1))) (Some (Num 1))
        (Some (Millis (Num 0)))) ! 4095) = Some (Num 0)
   \<and> parsed_sequence initial_state (Some (Millis (Num 0)))
     (fst (generate_calls 4097 initial_state (Num 0) (Some (Millis (Num 1))) (Some (Num 1))
        (Some (Millis (Num 0)))) ! 4096) = Some (Num 1)"
proof -
  have a: "Date_valueOf (Millis (Num 1)) = Num (1 + 0)" and b: "Date_valueOf (Millis (Num 0)) = Num 0"
    by (simp_all add: Date_valueOf_def TimeClip_def)
  have w: "parsed_sequence initial_state (Some (Millis (Num 0)))
      (fst (generate_calls 4097 initial_state (Num 0) (Some (Millis (Num 1))) (Some (Num 1))
         (Some (Millis (Num 0)))) ! i) = Some (Num ((1 + int i) mod 4096))" if "i < 4097" for i
    using C4_sequence_wrap [OF a b, where S = 1 and pst = initial_state and now = "Num 0"] that
    by simp
  show ?thesis
    using w [of 0] w [of 4094] w [of 4095] w [of 4096] by simp
qed

text \<open>
  The claim has the first call yield 0. The first of 4096 calls from the initial state,
  with timestamp 1, shard id 1 and epoch 0, yields the sequence value 1.
\<close>

theorem C4_sequence_wrap_counterexample:
  "map (parsed_sequence initial_state (Some (Millis (Num 0))))
     (take 1 (fst (generate_calls 4096 initial_state (Num 0) (Some (Millis (Num 1)))
        (Some (Num 1)) (Some (Millis (Num 0))))))
   = [Some (Num 1)]
   \<and> Some (Num 1) \<noteq> Some (Num 0)"
proof -
  have "map (parsed_sequence initial_state (Some (Millis (Num 0))))
      (fst (generate_calls 4096 initial_state (Num 0) (Some (Millis (Num 1))) (Some (Num 1))
         (Some (Millis (Num 0)))))
    = map (\<lambda>i. Some (Num ((1 + int i) mod 4096))) [0..<4096]"
    by (rule generate_calls_sequences [where T = 1 and E = 0])
      (simp_all add: Date_valueOf_def TimeClip_def initial_state_def)
  then have "take 1 (map (parsed_sequence initial_state (Some (Millis (Num 0))))
      (fst (generate_calls 4096 initial_state (Num 0) (Some (Millis (Num 1))) (Some (Num 1))
         (Some (Millis (Num 0))))))
    = take 1 (map (\<lambda>i. Some (Num ((1 + int i) mod 4096))) [0..<4096])"
    by (rule arg_cong)
  then show ?thesis
    by (simp add: take_map take_upt del: upt_rec_numeral)
qed

subsection \<open>C5: the width of the binary string\<close>

text \<open>
  Claim C5. Let the snowflake convert to the integer \<open>x\<close>. When \<open>0 \<le> x < 2 ^ 64\<close>,
  \<^verbatim>\<open>binary\<close> returns a string of exactly 64 characters: the base 2 representation of \<open>x\<close>
  with zeros added on the left. When the base 2 representation has 64 characters or more,
  it is returned as it is, not truncated.
\<close>

theorem C5_binary_width:
  assumes "BigInt_of_string snowflake = Inr x"
  shows "(0 \<le> x \<and> x < 2 ^ 64 \<longrightarrow>
            (\<exists>b. binary snowflake = Inr b \<and> length b = 64
               \<and> b = replicate (64 - length (BigInt_toString x 2)) CHR ''0'' @ BigInt_toString x 2))
       \<and> (64 \<le> length (BigInt_toString x 2) \<longrightarrow> binary snowflake = Inr (BigInt_toString x 2))"
proof (intro conjI impI)
  assume x: "0 \<le> x \<and> x < 2 ^ 64"
  have conv: "StringToBigInt snowflake = Some x"
    using assms by (simp add: BigInt_of_string_def split: option.splits)
  have "nat x < 2 ^ 64"
    using x by (simp add: nat_less_iff)
  from padded_digits(1) [OF this] binary_padded [OF conv] x
  show "\<exists>b. binary snowflake = Inr b \<and> length b = 64
      \<and> b = replicate (64 - length (BigInt_toString x 2)) CHR ''0'' @ BigInt_toString x 2"
    by (simp add: BigInt_toString_def)
next
  assume "64 \<le> length (BigInt_toString x 2)"
  then show "binary snowflake = Inr (BigInt_toString x 2)"
    using assms by (simp add: binary_def Let_def)
qed

lemma pow64_digits: "length (digits 2 (2 ^ 64)) = 65"
  by (simp add: digits.simps)

theorem C5_binary_width_witness:
  "BigInt_of_string ''5'' = Inr 5
   \<and> binary ''5'' = Inr ''0000000000000000000000000000000000000000000000000000000000000101''
   \<and> length ''0000000000000000000000000000000000000000000000000000000000000101'' = 64
   \<and> BigInt_of_string ''18446744073709551616'' = Inr (2 ^ 64)
   \<and> length (BigInt_toString (2 ^ 64) 2) = 65
   \<and> binary ''18446744073709551616'' = Inr (BigInt_toString (2 ^ 64) 2)"
proof -
  have a: "BigInt_of_string ''5'' = Inr 5"
    and b: "BigInt_of_string ''18446744073709551616'' = Inr (2 ^ 64)"
    by (simp_all add: eval_simps)
  have c: "length (BigInt_toString (2 ^ 64) 2) = 65"
    using pow64_digits by (simp add: BigInt_toString_def)
  have d: "BigInt_toString 5 2 = ''101''"
    by (simp add: eval_simps)
  show ?thesis
    using C5_binary_width [OF a] C5_binary_width [OF b] a b c d
    by (simp add: numeral_eq_Suc)
qed

subsection \<open>C6: the bit extractor\<close>

text \<open>
  Claim C6, amended. Let the snowflake convert to an integer \<open>x\<close> with \<open>0 \<le> x < 2 ^ 64\<close>,
  so that its binary string \<open>B\<close> has 64 characters, each 0 or 1, and let the offset \<open>start\<close>
  be in [0, 63]. With a length of at least 1 (and \<open>start + length\<close> below \<open>2 ^ 53\<close>),
  \<^verbatim>\<open>extractBits\<close> returns the double nearest to the integer value, in base 2, of the
  part of \<open>B\<close> from \<open>start\<close> up to \<open>start + length\<close>, cut at the end of \<open>B\<close>; with the length
  omitted, of the part from \<open>start\<close> to the end. That double is the integer value itself
  when the part has at most 53 characters.
\<close>

theorem C6_extractBits:
  assumes "BigInt_of_string snowflake = Inr x" and "0 \<le> x" and "x < 2 ^ 64"
    and "0 \<le> start" and "start < 64"
  shows "\<exists>B. binary snowflake = Inr B \<and> length B = 64
       \<and> extractBits snowflake (Num start) None
           = Inr (round_to_double (int (spec_base2_value (drop (nat start) B))))
       \<and> (11 \<le> start \<longrightarrow>
            extractBits snowflake (Num start) None
              = Inr (Num (int (spec_base2_value (drop (nat start) B)))))
       \<and> (\<forall>len. 1 \<le> len \<and> start + len < 2 ^ 53 \<longrightarrow>
            extractBits snowflake (Num start) (Some (Num len))
              = Inr (round_to_double
                       (int (spec_base2_value (take (nat len) (drop (nat start) B))))))
       \<and> (\<forall>len. 1 \<le> len \<and> len \<le> 53 \<longrightarrow>
            extractBits snowflake (Num start) (Some (Num len))
              = Inr (Num (int (spec_base2_value (take (nat len) (drop (nat start) B))))))"
proof -
  let ?B = "replicate (64 - length (digits 2 (nat x))) CHR ''0'' @ digits 2 (nat x)"
  have conv: "StringToBigInt snowflake = Some x"
    using assms(1) by (simp add: BigInt_of_string_def split: option.splits)
  have "nat x < 2 ^ 64"
    using assms(2,3) by (simp add: nat_less_iff)
  note B = padded_digits [OF this]
  have bin: "binary snowflake = Inr ?B"
    using conv assms(2,3) by (rule binary_padded)
  have start: "nat start < length ?B"
    using assms(4,5) B(1) by simp
  have bits: "list_all (is_digit 2) (drop (nat start) ?B)"
    "list_all (is_digit 2) (take n (drop (nat start) ?B))" for n
    using B(2) by (auto simp: list_all_iff dest: in_set_dropD in_set_takeD)
  have to_end: "extractBits snowflake (Num start) None
      = Inr (round_to_double (int (spec_base2_value (drop (nat start) ?B))))"
    using extractBits_to_end [OF bin B(2) assms(4) start]
    by (simp only: digits_value_spec [OF bits(1)])
  have to_end_exact: "extractBits snowflake (Num start) None
      = Inr (Num (int (spec_base2_value (drop (nat start) ?B))))" if "11 \<le> start"
  proof -
    have l: "length (drop (nat start) ?B) = 64 - nat start"
      by (simp only: length_drop B(1))
    have "64 - nat start \<le> 53"
      using that by linarith
    then have "length (drop (nat start) ?B) \<le> 53"
      by (simp only: l)
    from round_to_double_binary [OF bits(1) this] to_end show ?thesis
      by (simp only: digits_value_spec [OF bits(1)])
  qed
  have range: "extractBits snowflake (Num start) (Some (Num len))
      = Inr (round_to_double (int (spec_base2_value (take (nat len) (drop (nat start) ?B)))))"
    if "1 \<le> len \<and> start + len < 2 ^ 53" for len
    using extractBits_range [OF bin B(2) assms(4) start, of len] that
    by (simp only: digits_value_spec [OF bits(2)])
  have range_exact: "extractBits snowflake (Num start) (Some (Num len))
      = Inr (Num (int (spec_base2_value (take (nat len) (drop (nat start) ?B)))))"
    if "1 \<le> len \<and> len \<le> 53" for len
  proof -
    have "length (take (nat len) (drop (nat start) ?B)) \<le> nat len"
      by (simp only: length_take min.cobounded2)
    moreover have "nat len \<le> 53"
      using that by linarith
    ultimately have "length (take (nat len) (drop (nat start) ?B)) \<le> 53"
      by (rule order_trans)
    moreover have "1 \<le> len \<and> start + len < 2 ^ 53"
      using that assms(5) by simp
    ultimately show ?thesis
      using round_to_double_binary [OF bits(2), of "nat len"] range [of len]
      by (simp only: digits_value_spec [OF bits(2)])
  qed
  show ?thesis
    using bin B(1) to_end to_end_exact range range_exact by blast
qed

theorem C6_extractBits_witness:
  "BigInt_of_string ''4198401'' = Inr 4198401
   \<and> binary ''4198401''
       = Inr ''0000000000000000000000000000000000000000010000000001000000000001''
   \<and> extractBits ''4198401'' (Num 42) (Some (Num 10))
       = Inr (Num (int (spec_base2_value (take 10 (drop 42
           ''0000000000000000000000000000000000000000010000000001000000000001'')))))
   \<and> extractBits ''4198401'' (Num 42) None
       = Inr (Num (int (spec_base2_value (drop 42
           ''0000000000000000000000000000000000000000010000000001000000000001''))))
   \<and> spec_base2_value (drop 42
         ''0000000000000000000000000000000000000000010000000001000000000001'') = 4097"
proof -
  have a: "BigInt_of_string ''4198401'' = Inr 4198401"
    by (simp add: eval_simps)
  have b: "binary ''4198401''
      = Inr ''0000000000000000000000000000000000000000010000000001000000000001''"
    by (simp add: eval_simps)
  obtain B where B: "binary ''4198401'' = Inr B"
    "11 \<le> (42 :: int) \<longrightarrow>
       extractBits ''4198401'' (Num 42) None = Inr (Num (int (spec_base2_value (drop (nat 42) B))))"
    "\<forall>len. 1 \<le> len \<and> len \<le> 53 \<longrightarrow>
       extractBits ''4198401'' (Num 42) (Some (Num len))
         = Inr (Num (int (spec_base2_value (take (nat len) (drop (nat 42) B)))))"
    using C6_extractBits [OF a, of 42] by auto
  have "B = ''0000000000000000000000000000000000000000010000000001000000000001''"
    using B(1) b by simp
  moreover have "extractBits ''4198401'' (Num 42) (Some (Num 10))
      = Inr (Num (int (spec_base2_value (take (nat 10) (drop (nat 42) B)))))"
    using B(3) by simp
  ultimately show ?thesis
    using a b B(2) by simp
qed

text \<open>
  Two inputs where the claim, as it is written, fails. The identifier 9007199254740993 is
  \<open>2 ^ 53 + 1\<close>: the value of its whole binary string is not a double, and
  \<^verbatim>\<open>extractBits(snowflake, 0)\<close> returns 9007199254740992. And a length of 0 is falsy on
  line 116, so that \<^verbatim>\<open>extractBits("1", 63, 0)\<close> reads the string from offset 63 to its end
  and returns 1, where the part from 63 up to 63 is empty.
\<close>

theorem C6_extractBits_counterexample:
  "binary ''9007199254740993''
     = Inr ''0000000000100000000000000000000000000000000000000000000000000001''
   \<and> int (spec_base2_value (drop 0
         ''0000000000100000000000000000000000000000000000000000000000000001''))
       = 9007199254740993
   \<and> extractBits ''9007199254740993'' (Num 0) None = Inr (Num 9007199254740992)
   \<and> binary ''1'' = Inr ''0000000000000000000000000000000000000000000000000000000000000001''
   \<and> take 0 (drop 63 ''0000000000000000000000000000000000000000000000000000000000000001'')
       = []
   \<and> extractBits ''1'' (Num 63) (Some (Num 0)) = Inr (Num 1)
   \<and> Num 1 \<noteq> Num (int (spec_base2_value []))"
  by (simp add: eval_simps round_to_double_def)

subsection \<open>C7: when \<^verbatim>\<open>parse\<close> throws\<close>

text \<open>
  Claim C7, amended. \<^verbatim>\<open>parse(snowflake, epoch?)\<close> throws exactly when the conversion of the
  snowflake to a BigInt fails, which is a SyntaxError, or the epoch in effect (the argument,
  or the default epoch when there is none) is not a valid time value, which is a
  RangeError. For every string that converts, with a valid epoch in effect, it returns a
  record.
\<close>

theorem C7_parse_raises:
  "((\<exists>err. parse st snowflake epoch = Inl err) \<longleftrightarrow>
      BigInt_of_string snowflake = Inl SyntaxError
    \<or> Date_valueOf (case epoch of None \<Rightarrow> Millis (EPOCH st) | Some e \<Rightarrow> e) = NaN)
   \<and> (parse st snowflake epoch = Inl SyntaxError \<longleftrightarrow>
        BigInt_of_string snowflake = Inl SyntaxError)
   \<and> (parse st snowflake epoch = Inl RangeError \<longleftrightarrow>
        (\<exists>n. BigInt_of_string snowflake = Inr n)
      \<and> Date_valueOf (case epoch of None \<Rightarrow> Millis (EPOCH st) | Some e \<Rightarrow> e) = NaN)"
proof -
  let ?ep = "Date_valueOf (case epoch of None \<Rightarrow> Millis (EPOCH st) | Some e \<Rightarrow> e)"
  have ep: "?ep = NaN \<longleftrightarrow> \<not> (\<exists>E. ?ep = Num E)"
    by (auto simp: Date_valueOf_def TimeClip_def split: time_arg.splits number.splits)
  have conv: "BigInt_of_string snowflake = Inl SyntaxError
      \<longleftrightarrow> \<not> (\<exists>n. BigInt_of_string snowflake = Inr n)"
    by (auto simp: BigInt_of_string_def split: option.splits)
  have ret: "(\<exists>d. parse st snowflake epoch = Inr d) \<longleftrightarrow>
      (\<exists>n. BigInt_of_string snowflake = Inr n) \<and> (\<exists>E. ?ep = Num E)"
    by (rule parse_returns_iff)
  have kinds: "parse st snowflake epoch = Inl err \<Longrightarrow>
      (BigInt_of_string snowflake = Inl SyntaxError \<and> err = SyntaxError)
      \<or> ((\<exists>n. BigInt_of_string snowflake = Inr n) \<and> err = RangeError)" for err
    by (rule parse_throws)
  show ?thesis
  proof (cases "parse st snowflake epoch")
    case (Inr d)
    then have "\<exists>n. BigInt_of_string snowflake = Inr n" and "\<exists>E. ?ep = Num E"
      using ret by blast+
    then have "BigInt_of_string snowflake \<noteq> Inl SyntaxError" and "?ep \<noteq> NaN"
      using conv ep by blast+
    then show ?thesis
      using Inr by simp
  next
    case (Inl err)
    then have nr: "\<not> ((\<exists>n. BigInt_of_string snowflake = Inr n) \<and> (\<exists>E. ?ep = Num E))"
      using ret by simp
    from kinds [OF Inl] show ?thesis
    proof
      assume "BigInt_of_string snowflake = Inl SyntaxError \<and> err = SyntaxError"
      then show ?thesis
        using Inl by simp
    next
      assume a: "(\<exists>n. BigInt_of_string snowflake = Inr n) \<and> err = RangeError"
      then have "?ep = NaN"
        using nr ep by blast
      moreover have "BigInt_of_string snowflake \<noteq> Inl SyntaxError"
        using a conv by blast
      ultimately show ?thesis
        using Inl a by simp
    qed
  qed
qed

theorem C7_parse_raises_witness:
  "parse initial_state ''12a'' None = Inl SyntaxError
   \<and> BigInt_of_string ''12a'' = Inl SyntaxError
   \<and> BigInt_of_string '' 0x1F '' = Inr 31
   \<and> Date_valueOf (Millis (EPOCH initial_state)) = Num 0
   \<and> (\<exists>d. parse initial_state '' 0x1F '' None = Inr d)
   \<and> parse initial_state ''-5'' (Some (Date NaN)) = Inl RangeError"
proof -
  have a: "BigInt_of_string ''12a'' = Inl SyntaxError"
    and b: "BigInt_of_string '' 0x1F '' = Inr 31"
    and c: "BigInt_of_string ''-5'' = Inr (- 5)"
    and d: "Date_valueOf (Millis (EPOCH initial_state)) = Num 0"
    and e: "Date_valueOf (Date NaN) = NaN"
    by (simp_all add: initial_state_def eval_simps)
  have "\<exists>d. parse initial_state '' 0x1F '' None = Inr d"
    using C7_parse_raises [of initial_state "'' 0x1F ''" None] b d
    by (cases "parse initial_state '' 0x1F '' None") auto
  then show ?thesis
    using C7_parse_raises [of initial_state "''12a''" None]
      C7_parse_raises [of initial_state "''-5''" "Some (Date NaN)"] a b c d e
    by simp
qed

text \<open>
  The claim has \<^verbatim>\<open>parse\<close> return for every string that converts. The string 1 converts,
  and \<^verbatim>\<open>parse("1", 8640000000000001)\<close> throws a RangeError: the epoch is beyond the range
  of a Date, its time value is \<open>NaN\<close>, and \<^verbatim>\<open>BigInt(NaN)\<close> on line 82 throws.
\<close>

theorem C7_parse_raises_counterexample:
  "BigInt_of_string ''1'' = Inr 1
   \<and> parse initial_state ''1'' (Some (Millis (Num 8640000000000001))) = Inl RangeError"
  by (simp add: parse_def eval_simps)

subsection \<open>C8: \<^verbatim>\<open>isValid\<close> as a total gate\<close>

text \<open>
  Claim C8. \<^verbatim>\<open>isValid\<close> never throws: it returns a boolean for every string. It returns
  false for a string that does not consist of 17 to 22 digits, and for a string that does
  it returns true exactly when \<^verbatim>\<open>parse\<close> with the default epoch returns, so that an
  exception of \<^verbatim>\<open>parse\<close> becomes false.
\<close>

theorem C8_isValid_gate:
  "(\<exists>b. isValid st snowflake = Inr b)
   \<and> (\<not> regex_test snowflake \<longrightarrow> isValid st snowflake = Inr False)
   \<and> (regex_test snowflake \<longrightarrow>
        (isValid st snowflake = Inr True \<longleftrightarrow> (\<exists>d. parse st snowflake None = Inr d))
      \<and> (isValid st snowflake = Inr False \<longleftrightarrow> (\<exists>err. parse st snowflake None = Inl err)))"
  by (cases "parse st snowflake None") (auto simp: isValid_def)

theorem C8_isValid_gate_witness:
  "\<not> regex_test ''123'' \<and> isValid initial_state ''123'' = Inr False
   \<and> \<not> regex_test ''12345678901234567890123''
   \<and> isValid initial_state ''12345678901234567890123'' = Inr False
   \<and> \<not> regex_test ''1234567890123456x'' \<and> isValid initial_state ''1234567890123456x'' = Inr False
   \<and> regex_test ''12345678901234567''
   \<and> (\<exists>d. parse initial_state ''12345678901234567'' None = Inr d)
   \<and> isValid initial_state ''12345678901234567'' = Inr True
   \<and> (\<exists>err. parse (initial_state\<lparr>EPOCH := NaN\<rparr>) ''12345678901234567'' None = Inl err)
   \<and> isValid (initial_state\<lparr>EPOCH := NaN\<rparr>) ''12345678901234567'' = Inr False"
proof -
  have r: "\<not> regex_test ''123''" "\<not> regex_test ''12345678901234567890123''"
    "\<not> regex_test ''1234567890123456x''" "regex_test ''12345678901234567''"
    by (simp_all add: regex_test_def is_decimal_digit_def)
  have p: "\<exists>d. parse initial_state ''12345678901234567'' None = Inr d"
    by (simp add: parse_def initial_state_def eval_simps)
  have q: "\<exists>err. parse (initial_state\<lparr>EPOCH := NaN\<rparr>) ''12345678901234567'' None = Inl err"
    by (simp add: parse_def initial_state_def eval_simps)
  show ?thesis
    using C8_isValid_gate [of initial_state "''123''"]
      C8_isValid_gate [of initial_state "''12345678901234567890123''"]
      C8_isValid_gate [of initial_state "''1234567890123456x''"]
      C8_isValid_gate [of initial_state "''12345678901234567''"]
      C8_isValid_gate [of "initial_state\<lparr>EPOCH := NaN\<rparr>" "''12345678901234567''"]
      r p q
    by simp
qed

subsection \<open>C9: the state that \<^verbatim>\<open>generate\<close> leaves\<close>

text \<open>
  Claim C9, amended. Let the sequence counter be an integer \<open>q\<close> of magnitude below
  \<open>2 ^ 53 - 1\<close>. A call of \<^verbatim>\<open>generate\<close> that returns an identifier leaves the counter at
  \<open>q + 1\<close>, and the low 12 bits of the identifier are \<open>q mod 4096\<close>, the counter before the
  increment. A call that throws leaves the whole state as it was. No call changes the
  default epoch or the default shard id.
\<close>

theorem C9_generate_frame:
  assumes "SEQUENCE st = Num q" and "\<bar>q\<bar> < 2 ^ 53 - 1"
    and "generate st now ts sh ep = (r, st')"
  shows "EPOCH st' = EPOCH st \<and> SHARD_ID st' = SHARD_ID st
       \<and> (\<forall>snowflake. r = Inr snowflake \<longrightarrow>
             SEQUENCE st' = Num (q + 1)
           \<and> (\<exists>v. StringToBigInt snowflake = Some v \<and> take_bit 12 v = q mod 4096))
       \<and> (\<forall>e. r = Inl e \<longrightarrow> st' = st)"
proof (intro conjI allI impI)
  show "EPOCH st' = EPOCH st" "SHARD_ID st' = SHARD_ID st"
    using generate_state(1,2) [OF assms(3)] by simp_all
  show "st' = st" if "r = Inl e" for e
    using generate_state(3) [OF assms(3)] that assms(1) by blast
next
  fix snowflake
  assume r: "r = Inr snowflake"
  obtain T where T: "Date_valueOf (case ts of None \<Rightarrow> Millis now | Some t \<Rightarrow> t) = Num T"
    using assms(3) r
    by (cases "Date_valueOf (case ts of None \<Rightarrow> Millis now | Some t \<Rightarrow> t)")
      (auto simp: generate_def BigInt_of_number_def Let_def)
  obtain E where E: "Date_valueOf (case ep of None \<Rightarrow> Millis (EPOCH st) | Some e \<Rightarrow> e) = Num E"
    using assms(3) r T
    by (cases "Date_valueOf (case ep of None \<Rightarrow> Millis (EPOCH st) | Some e \<Rightarrow> e)")
      (auto simp: generate_def BigInt_of_number_def Let_def)
  obtain S where S: "(case sh of None \<Rightarrow> SHARD_ID st | Some s \<Rightarrow> s) = Num S"
    using assms(3) r T E
    by (cases "case sh of None \<Rightarrow> SHARD_ID st | Some s \<Rightarrow> s")
      (auto simp: generate_def BigInt_of_number_def number_rem_def Let_def)
  let ?v = "push_bit 22 (T - E) OR push_bit 12 (sgn S * (\<bar>S\<bar> mod 1024)) OR sgn q * (\<bar>q\<bar> mod 4096)"
  have res: "snowflake = BigInt_toString ?v 10" "st' = st\<lparr>SEQUENCE := round_to_double (q + 1)\<rparr>"
    using generate_returns [OF T E S assms(1)] assms(3) r by simp_all
  have "\<bar>q + 1\<bar> < 2 ^ 53"
    using assms(2) by simp
  then show "SEQUENCE st' = Num (q + 1)"
    using res(2) by (simp only: round_to_double_small) simp
  have "take_bit 12 ?v = q mod 4096"
    by (simp only: take_bit_or take_bit_push_bit rem_mod_4096) simp
  then show "\<exists>v. StringToBigInt snowflake = Some v \<and> take_bit 12 v = q mod 4096"
    using res(1) StringToBigInt_toString by blast
qed

theorem C9_generate_frame_witness:
  "SEQUENCE initial_state = Num 1 \<and> \<bar>1 :: int\<bar> < 2 ^ 53 - 1
   \<and> generate initial_state (Num 0) (Some (Millis (Num 1))) (Some (Num 1)) (Some (Millis (Num 0)))
       = (Inr ''4198401'', initial_state\<lparr>SEQUENCE := Num 2\<rparr>)
   \<and> EPOCH (initial_state\<lparr>SEQUENCE := Num 2\<rparr>) = EPOCH initial_state
   \<and> SHARD_ID (initial_state\<lparr>SEQUENCE := Num 2\<rparr>) = SHARD_ID initial_state
   \<and> SEQUENCE (initial_state\<lparr>SEQUENCE := Num 2\<rparr>) = Num (1 + 1)
   \<and> (\<exists>v. StringToBigInt ''4198401'' = Some v \<and> take_bit 12 v = 1 mod 4096)
   \<and> generate initial_state (Num 0) (Some (Date NaN)) None None = (Inl RangeError, initial_state)"
proof -
  have s: "SEQUENCE initial_state = Num 1" and q: "\<bar>1 :: int\<bar> < 2 ^ 53 - 1"
    by (simp_all add: initial_state_def)
  have g: "generate initial_state (Num 0) (Some (Millis (Num 1))) (Some (Num 1))
      (Some (Millis (Num 0))) = (Inr ''4198401'', initial_state\<lparr>SEQUENCE := Num 2\<rparr>)"
    by (simp add: generate_def initial_state_def eval_simps)
  have t: "generate initial_state (Num 0) (Some (Date NaN)) None None
      = (Inl RangeError, initial_state)"
    by (simp add: generate_def initial_state_def eval_simps)
  show ?thesis
    using C9_generate_frame [OF s q g] C9_generate_frame [OF s q t] s q g t by simp
qed

text \<open>
  The claim has the increment on every call, whatever the arguments. A timestamp beyond
  the range of a Date is a counterexample: line 64 throws a RangeError before line 66 is
  reached, and the counter stays at 1.
\<close>

theorem C9_generate_frame_counterexample:
  "generate initial_state (Num 0) (Some (Millis (Num 8640000000000001))) None None
     = (Inl RangeError, initial_state)
   \<and> SEQUENCE initial_state = Num 1
   \<and> SEQUENCE (snd (generate initial_state (Num 0) (Some (Millis (Num 8640000000000001)))
         None None)) \<noteq> Num (1 + 1)"
  by (simp add: generate_def initial_state_def eval_simps)

subsection \<open>C10: the digit strings that \<^verbatim>\<open>isValid\<close> accepts\<close>

text \<open>
  Claim C10, amended. When the default epoch is a valid time value, as it is in the initial
  state, \<^verbatim>\<open>isValid\<close> returns true for every string of 17 to 22 digits: such a string
  converts to a BigInt, so \<^verbatim>\<open>parse\<close> with the default epoch does not throw.
\<close>

theorem C10_isValid_digits:
  assumes "regex_test snowflake" and "Date_valueOf (Millis (EPOCH st)) = Num E"
  shows "isValid st snowflake = Inr True
       \<and> BigInt_of_string snowflake = Inr (int (digits_value 10 snowflake))
       \<and> (\<exists>d. parse st snowflake None = Inr d)"
proof -
  have "snowflake \<noteq> []" and "list_all is_decimal_digit snowflake"
    using assms(1) by (auto simp: regex_test_def)
  then have conv: "BigInt_of_string snowflake = Inr (int (digits_value 10 snowflake))"
    by (simp add: BigInt_of_string_def StringToBigInt_decimal)
  then have "\<exists>d. parse st snowflake None = Inr d"
    using assms(2) by (simp add: parse_returns_iff)
  then show ?thesis
    using assms(1) conv by (auto simp: isValid_def)
qed

theorem C10_isValid_digits_witness:
  "regex_test ''9999999999999999999999''
   \<and> Date_valueOf (Millis (EPOCH initial_state)) = Num 0
   \<and> isValid initial_state ''9999999999999999999999'' = Inr True
   \<and> BigInt_of_string ''9999999999999999999999''
       = Inr (int (digits_value 10 ''9999999999999999999999''))
   \<and> (\<exists>d. parse initial_state ''9999999999999999999999'' None = Inr d)"
proof -
  have a: "regex_test ''9999999999999999999999''"
    by (simp add: regex_test_def is_decimal_digit_def)
  have b: "Date_valueOf (Millis (EPOCH initial_state)) = Num 0"
    by (simp add: initial_state_def Date_valueOf_def TimeClip_def)
  show ?thesis
    using C10_isValid_digits [OF a b] a b by simp
qed

text \<open>
  The claim has no condition on the state. With the default epoch set beyond the range of a
  Date, \<^verbatim>\<open>parse\<close> throws a RangeError on a string of 17 digits, and \<^verbatim>\<open>isValid\<close> returns
  false.
\<close>

theorem C10_isValid_digits_counterexample:
  "regex_test ''12345678901234567''
   \<and> isValid (initial_state\<lparr>EPOCH := Num 8640000000000001\<rparr>) ''12345678901234567'' = Inr False
   \<and> parse (initial_state\<lparr>EPOCH := Num 8640000000000001\<rparr>) ''12345678901234567'' None
       = Inl RangeError"
  by (simp add: isValid_def regex_test_def is_decimal_digit_def parse_def initial_state_def
      eval_simps)

end
